theory Spec2Isabelle
  imports Main "HOL-Library.Word"
begin

unbundle bit_operations_syntax

section \<open>Values, Fields and contexts\<close>

text \<open>
  The package is a facade over the zap logging library.  The embedding keeps the
  facade's own code (\<open>fields.go\<close> and the Logger file) as it is written and
  represents the collaborators it calls (zap's Logger, core and checked entry, and the
  OpenTelemetry trace carrier) by a small interface model, marked as such below.

  \<open>zapcore.Level\<close> is a signed integer type with the constants
  Debug = -1, Info = 0, Warn = 1, Error = 2, DPanic = 3, Panic = 4, Fatal = 5; only the
  order and equality of levels are used.
\<close>

text \<open>
  Modelled from the spec: the package's own type \<open>Level\<close>, whose declaration is not
  among the sources.  \<open>SetLevel\<close> hands its argument to the atomic level as it is, so
  the type is \<open>zapcore.Level\<close>, with the severities in the ascending order
  Debug, Info, Warn, Error, DPanic, Panic, Fatal.
\<close>

type_synonym Level = int

definition DebugLevel :: Level where "DebugLevel = -1"
definition InfoLevel :: Level where "InfoLevel = 0"
definition WarnLevel :: Level where "WarnLevel = 1"
definition ErrorLevel :: Level where "ErrorLevel = 2"
definition DPanicLevel :: Level where "DPanicLevel = 3"
definition PanicLevel :: Level where "PanicLevel = 4"
definition FatalLevel :: Level where "FatalLevel = 5"

text \<open>The \<open>zapcore.FieldType\<close> tags that the package's constructors use.\<close>

datatype FieldType =
    UnknownType | ArrayMarshalerType | ObjectMarshalerType | BinaryType | BoolType
  | ByteStringType | Int64Type | StringType | Uint64Type | NamespaceType

text \<open>
  A request context, reduced to what \<open>TraceId\<close> reads from it: the trace
  identifier of the span it carries (16 bytes, here one 128-bit word), or no span at all.
\<close>

type_synonym TraceID = "128 word"

datatype Context = Context (ctx_span: "TraceID option")

text \<open>
  \<open>Field\<close> is the struct \<open>zapcore.Field\<close> with its five members.  The
  result of the library function \<open>zap.Any\<close>, whose choice of representation is
  not part of this package, is kept symbolic as \<open>zap_Any key value\<close>.

  \<open>val\<close> is a Go \<open>interface{}\<close> value as the variadic tail of a log call
  carries it; the scan of \<open>logw\<close> distinguishes Fields, contexts and everything
  else, and among the rest strings.  \<open>invalidPair\<close> is the struct of the same name.
\<close>

datatype Field =
    Field (Key: string) (Type: FieldType) (Integer: "64 word") (String: string)
      (Interface: val)
  | zap_Any (Key: string) (any_value: val)
and val =
    VNil | VBool bool | VInt "64 word" | VString string | VBytes "8 word list"
  | VField Field | VContext Context | VInvalidPairs "invalidPair list"
and invalidPair =
    InvalidPair (position: nat) (pair_key: val) (pair_value: val)

text \<open>What a call does besides its effect on the state: it returns, panics or exits.\<close>

datatype 'a result = Ok 'a | Panic string | Exit

text \<open>
  A Go \<open>error\<close> interface value: the nil interface, or a value of some type that has
  the method \<open>Error() string\<close>, given here by what a call of that method does.  The
  method of a non-nil interface value may itself panic: a nil \<open>*os.PathError\<close> held
  in the interface is not the nil interface, and its \<open>Error()\<close> dereferences nil.
\<close>

datatype go_error = NilError | ErrorValue (Error_method: "string result")

definition nil_dereference :: string where
  "nil_dereference = ''runtime error: invalid memory address or nil pointer dereference''"

subsection \<open>Field constructors (fields.go)\<close>

text \<open>
  The member \<open>Integer\<close> is an \<open>int64\<close>; Go's \<open>int\<close> is taken to be 64 bits
  wide, and the conversion of a \<open>uint64\<close> to \<open>int64\<close> keeps the bits.  Members that a
  struct literal leaves out have their zero value.
\<close>

definition Any :: "string \<Rightarrow> val \<Rightarrow> Field" where
  "Any key v = zap_Any key v"

definition Object :: "string \<Rightarrow> val \<Rightarrow> Field" where
  "Object key v = Field key ObjectMarshalerType 0 [] v"

definition Binary :: "string \<Rightarrow> 8 word list \<Rightarrow> Field" where
  "Binary key v = Field key BinaryType 0 [] (VBytes v)"

definition Bool :: "string \<Rightarrow> bool \<Rightarrow> Field" where
  "Bool key v = Field key BoolType (if v then 1 else 0) [] VNil"

definition ByteString :: "string \<Rightarrow> 8 word list \<Rightarrow> Field" where
  "ByteString key v = Field key ByteStringType 0 [] (VBytes v)"

definition Namespace :: "string \<Rightarrow> Field" where
  "Namespace key = Field key NamespaceType 0 [] VNil"

definition Method :: "string \<Rightarrow> Field" where
  "Method v = Field ''method'' StringType 0 v VNil"

definition Action :: "string \<Rightarrow> Field" where
  "Action v = Field ''action'' StringType 0 v VNil"

definition Topic :: "string \<Rightarrow> Field" where
  "Topic v = Field ''topic'' StringType 0 v VNil"

definition Partition :: "64 word \<Rightarrow> Field" where
  "Partition v = Field ''partition'' Int64Type v [] VNil"

definition Offset :: "64 word \<Rightarrow> Field" where
  "Offset v = Field ''offset'' Int64Type v [] VNil"

definition ProductID :: "64 word \<Rightarrow> Field" where
  "ProductID v = Field ''product_id'' Uint64Type v [] VNil"

text \<open>\<open>Error\<close> calls \<open>err.Error()\<close> with no test of \<open>err\<close>: on the nil
  interface the method call is a nil dereference, which panics; on any other value the
  call does what the method does, and the struct literal is built from what it returns.\<close>

definition Error :: "go_error \<Rightarrow> Field result" where
  "Error err =
     (case err of
        NilError \<Rightarrow> Panic nil_dereference
      | ErrorValue r \<Rightarrow>
          (case r of
             Ok s \<Rightarrow> Ok (Field ''error'' StringType 0 s VNil)
           | Panic m \<Rightarrow> Panic m
           | Exit \<Rightarrow> Exit))"

definition Count :: "64 word \<Rightarrow> Field" where
  "Count v = Field ''count'' Int64Type v [] VNil"

definition Query :: "string \<Rightarrow> Field" where
  "Query v = Field ''query'' StringType 0 v VNil"

definition File :: "string \<Rightarrow> Field" where
  "File v = Field ''file'' StringType 0 v VNil"

subsection \<open>Trace extraction\<close>

text \<open>
  Interface model of the trace carrier: \<open>trace.SpanFromContext\<close> gives the span of
  the context, or a no-op span whose trace identifier is all zeros;
  \<open>TraceID.IsValid\<close> holds of an identifier that is not all zeros;
  \<open>TraceID.String\<close> is its 32 lower-case hexadecimal digits.
\<close>

definition SpanContext_TraceID :: "Context \<Rightarrow> TraceID" where
  "SpanContext_TraceID ctx = (case ctx_span ctx of None \<Rightarrow> 0 | Some t \<Rightarrow> t)"

definition IsValid :: "TraceID \<Rightarrow> bool" where
  "IsValid t = (t \<noteq> 0)"

definition hex_digit :: "nat \<Rightarrow> char" where
  "hex_digit n = ''0123456789abcdef'' ! (n mod 16)"

definition TraceID_String :: "TraceID \<Rightarrow> string" where
  "TraceID_String t =
     map (\<lambda>i. hex_digit (unat (drop_bit (4 * (31 - i)) t AND 15))) [0..<32]"

definition NoTraceId :: string where
  "NoTraceId = ''unknown''"

definition TraceId :: "Context \<Rightarrow> Field" where
  "TraceId ctx =
     (if IsValid (SpanContext_TraceID ctx)
      then Field ''traceId'' StringType 0 (TraceID_String (SpanContext_TraceID ctx)) VNil
      else Field ''traceId'' StringType 0 NoTraceId VNil)"

section \<open>The state: loggers, level cells, the singleton slot and the output\<close>

text \<open>
  Interface model of \<open>*zap.Logger\<close>: a value that is never modified once built
  (\<open>With\<close> and \<open>Named\<close> of zap return clones).  \<open>core_level\<close> is the
  atomic level cell that enables its core, or \<open>None\<close> for the no-op core, which
  is never enabled; \<open>core_fields\<close> is the context bound to the core by
  \<open>With\<close>; \<open>development\<close> is the option \<open>zap.Development()\<close>.
\<close>

record zapLogger =
  core_level :: "nat option"
  core_fields :: "Field list"
  zname :: string
  development :: bool

text \<open>The struct \<open>Logger\<close>; \<open>level\<close> is the address of a \<open>zap.AtomicLevel\<close> cell.\<close>

record Logger =
  base :: zapLogger
  level :: nat

text \<open>One record written by a core to its sink: the entry, the core's bound context and
  the Fields given to \<open>Write\<close>.\<close>

record Entry =
  e_level :: Level
  e_name :: string
  e_msg :: string
  e_context :: "Field list"
  e_fields :: "Field list"

text \<open>
  The store.  A \<open>*Logger\<close> is nil (\<open>None\<close>) or the index of a struct in
  \<open>loggers\<close>; \<open>levels\<close> holds the atomic level cells; \<open>defaultLogger\<close> is
  the package variable of that name; \<open>written\<close> is everything the cores have written,
  oldest first.  Loggers are those that the constructors below build: their \<open>base\<close> is
  never nil, and the addresses they hold are those of cells allocated before them.
\<close>

type_synonym LoggerPtr = "nat option"

record world =
  loggers :: "Logger list"
  levels :: "Level list"
  defaultLogger :: LoggerPtr
  written :: "Entry list"

definition deref :: "world \<Rightarrow> LoggerPtr \<Rightarrow> Logger option" where
  "deref w p =
     (case p of
        None \<Rightarrow> None
      | Some a \<Rightarrow> if a < length (loggers w) then Some (loggers w ! a) else None)"

subsection \<open>Interface model of zap\<close>

datatype CheckWriteAction = WriteThenNoop | WriteThenPanic | WriteThenFatal

record CheckedEntry =
  ce_level :: Level
  ce_name :: string
  ce_msg :: string
  ce_core :: "Field list option"
  ce_should :: CheckWriteAction

text \<open>\<open>Core().Enabled(lvl)\<close>: the level cell's value is at most \<open>lvl\<close>.\<close>

definition zap_Enabled :: "zapLogger \<Rightarrow> Level \<Rightarrow> world \<Rightarrow> bool" where
  "zap_Enabled zl lvl w =
     (case core_level zl of
        None \<Rightarrow> False
      | Some c \<Rightarrow> c < length (levels w) \<and> levels w ! c \<le> lvl)"

text \<open>
  \<open>Logger.Check\<close>: nothing below DPanic when the core is disabled; otherwise the
  core joins the entry when it is enabled, Panic and Fatal (and DPanic in development)
  add their terminal action, and the result is nil when neither applies.
\<close>

definition zap_Check :: "zapLogger \<Rightarrow> Level \<Rightarrow> string \<Rightarrow> world \<Rightarrow> CheckedEntry option" where
  "zap_Check zl lvl msg w =
     (if lvl < DPanicLevel \<and> \<not> zap_Enabled zl lvl w then None
      else
        let core = (if zap_Enabled zl lvl w then Some (core_fields zl) else None);
            should =
              (if lvl = PanicLevel then WriteThenPanic
               else if lvl = FatalLevel then WriteThenFatal
               else if lvl = DPanicLevel \<and> development zl then WriteThenPanic
               else WriteThenNoop)
        in if core = None \<and> should = WriteThenNoop then None
           else Some \<lparr>ce_level = lvl, ce_name = zname zl, ce_msg = msg,
                      ce_core = core, ce_should = should\<rparr>)"

text \<open>\<open>CheckedEntry.Write\<close>: the core, if any, writes one record; then the terminal
  action runs.\<close>

definition ce_Write :: "CheckedEntry \<Rightarrow> Field list \<Rightarrow> world \<Rightarrow> unit result \<times> world" where
  "ce_Write ce fs w =
     (let w' =
        (case ce_core ce of
           None \<Rightarrow> w
         | Some ctx \<Rightarrow>
             w\<lparr>written := written w @
                 [\<lparr>e_level = ce_level ce, e_name = ce_name ce, e_msg = ce_msg ce,
                   e_context = ctx, e_fields = fs\<rparr>]\<rparr>)
      in case ce_should ce of
           WriteThenNoop \<Rightarrow> (Ok (), w')
         | WriteThenPanic \<Rightarrow> (Panic (ce_msg ce), w')
         | WriteThenFatal \<Rightarrow> (Exit, w'))"

text \<open>\<open>Logger.DPanic(msg, fields...)\<close> of zap: check at DPanic, write if admitted.\<close>

definition zap_DPanic :: "zapLogger \<Rightarrow> string \<Rightarrow> Field list \<Rightarrow> world \<Rightarrow> unit result \<times> world" where
  "zap_DPanic zl msg fs w =
     (case zap_Check zl DPanicLevel msg w of
        None \<Rightarrow> (Ok (), w)
      | Some ce \<Rightarrow> ce_Write ce fs w)"

text \<open>\<open>Logger.With\<close> of zap: a clone whose core has the fields added to its context;
  the no-op core stays as it is.\<close>

definition zap_With :: "zapLogger \<Rightarrow> Field list \<Rightarrow> zapLogger" where
  "zap_With zl fs =
     (case core_level zl of
        None \<Rightarrow> zl
      | Some c \<Rightarrow> zl\<lparr>core_fields := core_fields zl @ fs\<rparr>)"

text \<open>\<open>Logger.Named\<close> of zap: segments are joined by periods.\<close>

definition zap_Named :: "zapLogger \<Rightarrow> string \<Rightarrow> zapLogger" where
  "zap_Named zl s =
     (if s = [] then zl
      else if zname zl = [] then zl\<lparr>zname := s\<rparr>
      else zl\<lparr>zname := zname zl @ ''.'' @ s\<rparr>)"

text \<open>\<open>zap.Array(key, val)\<close> is the struct literal below.\<close>

definition zap_Array :: "string \<Rightarrow> invalidPair list \<Rightarrow> Field" where
  "zap_Array key ps = Field key ArrayMarshalerType 0 [] (VInvalidPairs ps)"

text \<open>Sequencing: the next statement runs only if the previous one returned.\<close>

fun and_then :: "unit result \<times> world \<Rightarrow> (world \<Rightarrow> unit result \<times> world) \<Rightarrow> unit result \<times> world" where
  "and_then (Ok u, w) f = f w"
| "and_then (Panic s, w) f = (Panic s, w)"
| "and_then (Exit, w) f = (Exit, w)"

section \<open>The Logger\<close>

subsection \<open>Constructors and the singleton\<close>

definition NewLogger :: "world \<Rightarrow> LoggerPtr \<times> world" where
  "NewLogger w =
     (let c = length (levels w);
          logger = \<lparr>base = \<lparr>core_level = Some c, core_fields = [], zname = [],
                              development = False\<rparr>,
                    level = c\<rparr>
      in (Some (length (loggers w)),
          w\<lparr>levels := levels w @ [InfoLevel], loggers := loggers w @ [logger]\<rparr>))"

definition NewDevelopmentLogger :: "world \<Rightarrow> LoggerPtr \<times> world" where
  "NewDevelopmentLogger w =
     (let c = length (levels w);
          logger = \<lparr>base = \<lparr>core_level = Some c, core_fields = [], zname = [],
                              development = True\<rparr>,
                    level = c\<rparr>
      in (Some (length (loggers w)),
          w\<lparr>levels := levels w @ [DebugLevel], loggers := loggers w @ [logger]\<rparr>))"

definition NewNopLogger :: "world \<Rightarrow> LoggerPtr \<times> world" where
  "NewNopLogger w =
     (let c = length (levels w);
          logger = \<lparr>base = \<lparr>core_level = None, core_fields = [], zname = [],
                              development = False\<rparr>,
                    level = c\<rparr>
      in (Some (length (loggers w)),
          w\<lparr>levels := levels w @ [InfoLevel], loggers := loggers w @ [logger]\<rparr>))"

text \<open>\<open>L\<close>: load the slot; if it is nil, build a Logger and store it; return it.\<close>

definition L :: "world \<Rightarrow> LoggerPtr \<times> world" where
  "L w =
     (case defaultLogger w of
        None \<Rightarrow> (case NewLogger w of (l, w') \<Rightarrow> (l, w'\<lparr>defaultLogger := l\<rparr>))
      | Some a \<Rightarrow> (Some a, w))"

text \<open>The \<open>init\<close> of the development build stores a development Logger in the slot.\<close>

definition init_development :: "world \<Rightarrow> world" where
  "init_development w =
     (case NewDevelopmentLogger w of (l, w') \<Rightarrow> w'\<lparr>defaultLogger := l\<rparr>)"

subsection \<open>Derivation and the level\<close>

text \<open>\<open>With\<close> assigns to \<open>l.base\<close> and returns \<open>l\<close> itself.\<close>

definition With :: "LoggerPtr \<Rightarrow> Field list \<Rightarrow> world \<Rightarrow> LoggerPtr result \<times> world" where
  "With l fs w =
     (case l of
        None \<Rightarrow> (Panic nil_dereference, w)
      | Some a \<Rightarrow>
          (case deref w l of
             None \<Rightarrow> (Panic nil_dereference, w)
           | Some lg \<Rightarrow>
               (Ok l, w\<lparr>loggers := (loggers w)[a := lg\<lparr>base := zap_With (base lg) fs\<rparr>]\<rparr>)))"

definition Level :: "LoggerPtr \<Rightarrow> world \<Rightarrow> Level result" where
  "Level l w =
     (case deref w l of
        None \<Rightarrow> Panic nil_dereference
      | Some lg \<Rightarrow> Ok (levels w ! level lg))"

definition SetLevel :: "LoggerPtr \<Rightarrow> Level \<Rightarrow> world \<Rightarrow> unit result \<times> world" where
  "SetLevel l lv w =
     (case deref w l of
        None \<Rightarrow> (Panic nil_dereference, w)
      | Some lg \<Rightarrow> (Ok (), w\<lparr>levels := (levels w)[level lg := lv]\<rparr>))"

text \<open>\<open>Named\<close> copies the struct (\<open>c := *l\<close>) and returns the address of the copy.\<close>

definition Named :: "LoggerPtr \<Rightarrow> string \<Rightarrow> world \<Rightarrow> LoggerPtr result \<times> world" where
  "Named l s w =
     (if s = [] then (Ok l, w)
      else
        (case deref w l of
           None \<Rightarrow> (Panic nil_dereference, w)
         | Some lg \<Rightarrow>
             (Ok (Some (length (loggers w))),
              w\<lparr>loggers := loggers w @ [lg\<lparr>base := zap_Named (base lg) s\<rparr>]\<rparr>)))"

subsection \<open>The scan of the variadic tail\<close>

definition danglingKeyErrMsg :: string where
  "danglingKeyErrMsg = ''Ignored key without a value.''"

definition nonStringKeyErrMsg :: string where
  "nonStringKeyErrMsg = ''Ignored key-value pairs with non-string keys.''"

text \<open>
  The loop of \<open>logw\<close> over \<open>kv\<close>, from position \<open>i\<close>, with the Fields and the
  invalid pairs collected so far.  Its only effect, the diagnostic for a dangling key, is
  followed at once by \<open>break\<close>; the loop is therefore a function that also returns the
  dangling element, and \<open>logw\<close> issues the diagnostic where the loop is left.
\<close>

function scan ::
  "val list \<Rightarrow> nat \<Rightarrow> Field list \<Rightarrow> invalidPair list
     \<Rightarrow> Field list \<times> invalidPair list \<times> val option" where
  "scan kv i fs invalids =
     (if i < length kv then
        (case kv ! i of
           VField f \<Rightarrow> scan kv (i + 1) (fs @ [f]) invalids
         | VContext ctx \<Rightarrow>
             (let f = TraceId ctx
              in scan kv (i + 1) (if String f \<noteq> NoTraceId then fs @ [TraceId ctx] else fs)
                   invalids)
         | k \<Rightarrow>
             if i = length kv - 1 then (fs, invalids, Some k)
             else
               (let v = kv ! (i + 1)
                in case k of
                     VString s \<Rightarrow> scan kv (i + 2) (fs @ [zap_Any s v]) invalids
                   | _ \<Rightarrow> scan kv (i + 2) fs (invalids @ [InvalidPair i k v])))
      else (fs, invalids, None))"
  by pat_completeness auto
termination
  by (relation "measure (\<lambda>(kv, i, fs, invalids). length kv - i)") auto

declare scan.simps [simp del]

subsection \<open>Dispatch\<close>

definition logw :: "LoggerPtr \<Rightarrow> Level \<Rightarrow> string \<Rightarrow> val list \<Rightarrow> world \<Rightarrow> unit result \<times> world" where
  "logw l lvl msg kv w =
     (case deref w l of
        None \<Rightarrow> (Panic nil_dereference, w)
      | Some lg \<Rightarrow>
          if lvl < DPanicLevel \<and> \<not> zap_Enabled (base lg) lvl w then (Ok (), w)
          else
            (case zap_Check (base lg) lvl msg w of
               None \<Rightarrow> (Ok (), w)
             | Some ce \<Rightarrow>
                 if 0 < length kv then
                   (case scan kv 0 [] [] of
                      (fs, invalids, dangling) \<Rightarrow>
                        and_then
                          (and_then
                             (case dangling of
                                None \<Rightarrow> (Ok (), w)
                              | Some k \<Rightarrow>
                                  zap_DPanic (base lg) danglingKeyErrMsg
                                    [zap_Any ''ignored'' k] w)
                             (\<lambda>w1. if 0 < length invalids
                                    then zap_DPanic (base lg) nonStringKeyErrMsg
                                           [zap_Array ''invalid'' invalids] w1
                                    else (Ok (), w1)))
                          (ce_Write ce fs))
                 else ce_Write ce [] w))"

text \<open>The methods that take a context append its trace Field to the tail.\<close>

definition Debug :: "LoggerPtr \<Rightarrow> Context \<Rightarrow> string \<Rightarrow> val list \<Rightarrow> world \<Rightarrow> unit result \<times> world" where
  "Debug l ctx msg kv w = logw l DebugLevel msg (kv @ [VField (TraceId ctx)]) w"

definition Info :: "LoggerPtr \<Rightarrow> Context \<Rightarrow> string \<Rightarrow> val list \<Rightarrow> world \<Rightarrow> unit result \<times> world" where
  "Info l ctx msg kv w = logw l InfoLevel msg (kv @ [VField (TraceId ctx)]) w"

definition Warn :: "LoggerPtr \<Rightarrow> Context \<Rightarrow> string \<Rightarrow> val list \<Rightarrow> world \<Rightarrow> unit result \<times> world" where
  "Warn l ctx msg kv w = logw l WarnLevel msg (kv @ [VField (TraceId ctx)]) w"

definition Error' :: "LoggerPtr \<Rightarrow> Context \<Rightarrow> string \<Rightarrow> val list \<Rightarrow> world \<Rightarrow> unit result \<times> world" where
  "Error' l ctx msg kv w = logw l ErrorLevel msg (kv @ [VField (TraceId ctx)]) w"

definition DPanic :: "LoggerPtr \<Rightarrow> Context \<Rightarrow> string \<Rightarrow> val list \<Rightarrow> world \<Rightarrow> unit result \<times> world" where
  "DPanic l ctx msg kv w = logw l DPanicLevel msg (kv @ [VField (TraceId ctx)]) w"

definition Panic' :: "LoggerPtr \<Rightarrow> Context \<Rightarrow> string \<Rightarrow> val list \<Rightarrow> world \<Rightarrow> unit result \<times> world" where
  "Panic' l ctx msg kv w = logw l PanicLevel msg (kv @ [VField (TraceId ctx)]) w"

definition Fatal :: "LoggerPtr \<Rightarrow> Context \<Rightarrow> string \<Rightarrow> val list \<Rightarrow> world \<Rightarrow> unit result \<times> world" where
  "Fatal l ctx msg kv w = logw l FatalLevel msg (kv @ [VField (TraceId ctx)]) w"

text \<open>The methods with the suffix \<open>w\<close> pass the tail as it is.\<close>

definition Debugw :: "LoggerPtr \<Rightarrow> string \<Rightarrow> val list \<Rightarrow> world \<Rightarrow> unit result \<times> world" where
  "Debugw l msg kv w = logw l DebugLevel msg kv w"

definition Infow :: "LoggerPtr \<Rightarrow> string \<Rightarrow> val list \<Rightarrow> world \<Rightarrow> unit result \<times> world" where
  "Infow l msg kv w = logw l InfoLevel msg kv w"

definition Warnw :: "LoggerPtr \<Rightarrow> string \<Rightarrow> val list \<Rightarrow> world \<Rightarrow> unit result \<times> world" where
  "Warnw l msg kv w = logw l WarnLevel msg kv w"

definition Errorw :: "LoggerPtr \<Rightarrow> string \<Rightarrow> val list \<Rightarrow> world \<Rightarrow> unit result \<times> world" where
  "Errorw l msg kv w = logw l ErrorLevel msg kv w"

definition DPanicw :: "LoggerPtr \<Rightarrow> string \<Rightarrow> val list \<Rightarrow> world \<Rightarrow> unit result \<times> world" where
  "DPanicw l msg kv w = logw l InfoLevel msg kv w"

definition Panicw :: "LoggerPtr \<Rightarrow> string \<Rightarrow> val list \<Rightarrow> world \<Rightarrow> unit result \<times> world" where
  "Panicw l msg kv w = logw l PanicLevel msg kv w"

definition Fatalw :: "LoggerPtr \<Rightarrow> string \<Rightarrow> val list \<Rightarrow> world \<Rightarrow> unit result \<times> world" where
  "Fatalw l msg kv w = logw l FatalLevel msg kv w"

subsection \<open>The state at program start\<close>

definition start :: world where
  "start = \<lparr>loggers = [], levels = [], defaultLogger = None, written = []\<rparr>"

section \<open>The three shapes of the specification\<close>

text \<open>
  The specification reads the tail as a sequence of shapes: an already-constructed Field
  (one slot), a context (one slot), or a key followed by its value (two slots), possibly
  followed by one last key without a value.  These definitions follow its words; the
  theorems below compare them with \<open>scan\<close>.
\<close>

datatype shape = FieldShape Field | ContextShape Context | PairShape val val

fun is_bare :: "val \<Rightarrow> bool" where
  "is_bare (VField f) = False"
| "is_bare (VContext c) = False"
| "is_bare v = True"

fun is_string :: "val \<Rightarrow> bool" where
  "is_string (VString s) = True"
| "is_string v = False"

fun shape_args :: "shape \<Rightarrow> val list" where
  "shape_args (FieldShape f) = [VField f]"
| "shape_args (ContextShape c) = [VContext c]"
| "shape_args (PairShape k v) = [k, v]"

definition flat :: "shape list \<Rightarrow> val list" where
  "flat ss = concat (map shape_args ss)"

text \<open>A pair's key is neither a Field nor a context (else it would be read as one).\<close>

fun shape_ok :: "shape \<Rightarrow> bool" where
  "shape_ok (PairShape k v) = is_bare k"
| "shape_ok s = True"

fun shape_fields :: "shape \<Rightarrow> Field list" where
  "shape_fields (FieldShape f) = [f]"
| "shape_fields (ContextShape c) =
     (if String (TraceId c) = NoTraceId then [] else [TraceId c])"
| "shape_fields (PairShape k v) = (case k of VString s \<Rightarrow> [Any s v] | _ \<Rightarrow> [])"

fun bad_pair :: "shape \<Rightarrow> bool" where
  "bad_pair (PairShape k v) = (\<not> is_string k)"
| "bad_pair s = False"

text \<open>The invalid pairs of a sequence of shapes whose first slot is at position \<open>i\<close>.\<close>

fun shapes_invalids :: "nat \<Rightarrow> shape list \<Rightarrow> invalidPair list" where
  "shapes_invalids i [] = []"
| "shapes_invalids i (s # ss) =
     (if bad_pair s
      then (case s of PairShape k v \<Rightarrow> [InvalidPair i k v] | _ \<Rightarrow> [])
      else []) @ shapes_invalids (i + length (shape_args s)) ss"

text \<open>The key left over at the end of a tail, if any.\<close>

definition tail_args :: "val option \<Rightarrow> val list" where
  "tail_args d = (case d of None \<Rightarrow> [] | Some k \<Rightarrow> [k])"

definition tail_ok :: "val option \<Rightarrow> bool" where
  "tail_ok d = (case d of None \<Rightarrow> True | Some k \<Rightarrow> is_bare k)"

text \<open>The records a call is expected to leave in the output.\<close>

definition record_of :: "zapLogger \<Rightarrow> Level \<Rightarrow> string \<Rightarrow> Field list \<Rightarrow> Entry" where
  "record_of zl lvl msg fs =
     \<lparr>e_level = lvl, e_name = zname zl, e_msg = msg, e_context = core_fields zl,
      e_fields = fs\<rparr>"

definition dangling_diagnostic :: "zapLogger \<Rightarrow> val \<Rightarrow> Entry" where
  "dangling_diagnostic zl k =
     record_of zl DPanicLevel danglingKeyErrMsg [Any ''ignored'' k]"

definition invalid_diagnostic :: "zapLogger \<Rightarrow> invalidPair list \<Rightarrow> Entry" where
  "invalid_diagnostic zl ps =
     record_of zl DPanicLevel nonStringKeyErrMsg
       [Field ''invalid'' ArrayMarshalerType 0 [] (VInvalidPairs ps)]"

text \<open>The diagnostics of a scan: one for the dangling key, if any, then one for all the
  invalid pairs, if any.\<close>

definition diagnostics :: "zapLogger \<Rightarrow> invalidPair list \<Rightarrow> val option \<Rightarrow> Entry list" where
  "diagnostics zl ivs d =
     (case d of None \<Rightarrow> [] | Some k \<Rightarrow> [dangling_diagnostic zl k]) @
     (if ivs = [] then [] else [invalid_diagnostic zl ivs])"

text \<open>How a call at a level ends once its record is handled: Panic panics, Fatal exits,
  DPanic panics in development.\<close>

definition terminal :: "zapLogger \<Rightarrow> Level \<Rightarrow> string \<Rightarrow> unit result" where
  "terminal zl lvl msg =
     (if lvl = PanicLevel then Panic msg
      else if lvl = FatalLevel then Exit
      else if lvl = DPanicLevel \<and> development zl then Panic msg
      else Ok ())"

text \<open>The call gets past the gate of \<open>logw\<close> and the check of zap, so that the scan
  runs: the core is enabled at the level, or the level has a terminal action.\<close>

definition scan_runs :: "zapLogger \<Rightarrow> Level \<Rightarrow> world \<Rightarrow> bool" where
  "scan_runs zl lvl w =
     (zap_Enabled zl lvl w \<or> lvl = PanicLevel \<or> lvl = FatalLevel \<or>
      (lvl = DPanicLevel \<and> development zl))"

text \<open>The state with more records written.\<close>

definition wrote :: "world \<Rightarrow> Entry list \<Rightarrow> world" where
  "wrote w es = w\<lparr>written := written w @ es\<rparr>"

section \<open>Basic facts\<close>

lemmas level_defs =
  DebugLevel_def InfoLevel_def WarnLevel_def ErrorLevel_def
  DPanicLevel_def PanicLevel_def FatalLevel_def

lemma length_TraceID_String: "length (TraceID_String t) = 32"
  by (simp add: TraceID_String_def)

lemma TraceID_String_not_sentinel: "TraceID_String t \<noteq> NoTraceId"
proof
  assume "TraceID_String t = NoTraceId"
  then have "length (TraceID_String t) = length NoTraceId" by simp
  then show False by (simp add: length_TraceID_String NoTraceId_def)
qed

subsection \<open>One step of the scan\<close>

lemma scan_end: "length kv \<le> i \<Longrightarrow> scan kv i fs ivs = (fs, ivs, None)"
  by (subst scan.simps) simp

lemma scan_Field:
  "i < length kv \<Longrightarrow> kv ! i = VField f \<Longrightarrow> scan kv i fs ivs = scan kv (Suc i) (fs @ [f]) ivs"
  by (subst scan.simps) simp

lemma scan_Context:
  "i < length kv \<Longrightarrow> kv ! i = VContext c \<Longrightarrow>
   scan kv i fs ivs =
     scan kv (Suc i) (if String (TraceId c) \<noteq> NoTraceId then fs @ [TraceId c] else fs) ivs"
  by (subst scan.simps) (simp add: Let_def)

lemma scan_dangling:
  "i < length kv \<Longrightarrow> is_bare (kv ! i) \<Longrightarrow> Suc i = length kv \<Longrightarrow>
   scan kv i fs ivs = (fs, ivs, Some (kv ! i))"
  by (subst scan.simps) (cases "kv ! i"; auto)

lemma scan_pair_string:
  assumes "Suc i < length kv" and "kv ! i = VString s"
  shows "scan kv i fs ivs = scan kv (i + 2) (fs @ [zap_Any s (kv ! Suc i)]) ivs"
proof -
  from assms(1) have "i < length kv" and "i \<noteq> length kv - 1" by arith+
  with assms(2) show ?thesis
    by (subst scan.simps) (simp add: Let_def)
qed

lemma scan_pair_invalid:
  assumes "Suc i < length kv" and "is_bare (kv ! i)" and "\<not> is_string (kv ! i)"
  shows "scan kv i fs ivs = scan kv (i + 2) fs (ivs @ [InvalidPair i (kv ! i) (kv ! Suc i)])"
proof -
  from assms(1) have "i < length kv" and "i \<noteq> length kv - 1" by arith+
  with assms(2,3) show ?thesis
    by (subst scan.simps) (cases "kv ! i"; simp add: Let_def)
qed

lemma length_flat_Cons: "flat (s # ss) = shape_args s @ flat ss"
  by (simp add: flat_def)

lemma flat_Nil: "flat [] = []"
  by (simp add: flat_def)

lemma nth_pair_second: "(pre @ k # v # suf) ! Suc (length pre) = v"
  by (simp add: nth_append)

lemma scan_shape:
  assumes "shape_ok s"
  shows "scan (pre @ shape_args s @ suf) (length pre) fs ivs =
         scan (pre @ shape_args s @ suf) (length pre + length (shape_args s))
           (fs @ shape_fields s) (ivs @ shapes_invalids (length pre) [s])"
proof (cases s)
  case (FieldShape f)
  then show ?thesis
    by (simp add: scan_Field [where f = f])
next
  case (ContextShape c)
  then show ?thesis
    by (simp add: scan_Context [where c = c])
next
  case (PairShape k v)
  with assms have b: "is_bare k" by simp
  show ?thesis
  proof (cases "is_string k")
    case True
    then obtain t where k: "k = VString t" by (cases k) simp_all
    show ?thesis
      using scan_pair_string [of "length pre" "pre @ [k, v] @ suf" t fs ivs] PairShape k
      by (simp add: nth_pair_second Any_def)
  next
    case False
    then show ?thesis
      using scan_pair_invalid [of "length pre" "pre @ [k, v] @ suf" fs ivs] PairShape b
      by (cases k) (simp_all add: nth_pair_second)
  qed
qed

subsection \<open>The scan reads the shapes\<close>

lemma scan_shapes:
  "list_all shape_ok ss \<Longrightarrow>
   scan (pre @ flat ss @ suf) (length pre) fs ivs =
   scan (pre @ flat ss @ suf) (length pre + length (flat ss))
     (fs @ concat (map shape_fields ss)) (ivs @ shapes_invalids (length pre) ss)"
proof (induction ss arbitrary: pre fs ivs)
  case Nil
  then show ?case by (simp add: flat_def)
next
  case (Cons s ss)
  then have ok: "shape_ok s" and oks: "list_all shape_ok ss" by simp_all
  have "scan (pre @ flat (s # ss) @ suf) (length pre) fs ivs =
        scan (pre @ shape_args s @ (flat ss @ suf)) (length pre) fs ivs"
    by (simp add: length_flat_Cons)
  also have "\<dots> = scan (pre @ shape_args s @ (flat ss @ suf)) (length pre + length (shape_args s))
           (fs @ shape_fields s) (ivs @ shapes_invalids (length pre) [s])"
    by (rule scan_shape [OF ok])
  also have "\<dots> = scan ((pre @ shape_args s) @ flat ss @ suf) (length (pre @ shape_args s))
           (fs @ shape_fields s) (ivs @ shapes_invalids (length pre) [s])"
    by simp
  also have "\<dots> = scan ((pre @ shape_args s) @ flat ss @ suf)
           (length (pre @ shape_args s) + length (flat ss))
           ((fs @ shape_fields s) @ concat (map shape_fields ss))
           ((ivs @ shapes_invalids (length pre) [s]) @ shapes_invalids (length (pre @ shape_args s)) ss)"
    by (rule Cons.IH [OF oks])
  finally show ?case
    by (simp add: length_flat_Cons add.assoc)
qed

lemma scan_flat:
  assumes "list_all shape_ok ss"
  shows "scan (flat ss) 0 [] [] = (concat (map shape_fields ss), shapes_invalids 0 ss, None)"
proof -
  have "scan ([] @ flat ss @ []) (length ([] :: val list)) [] [] =
        scan ([] @ flat ss @ []) (length ([] :: val list) + length (flat ss))
          ([] @ concat (map shape_fields ss)) ([] @ shapes_invalids (length ([] :: val list)) ss)"
    by (rule scan_shapes [OF assms])
  then have "scan (flat ss) 0 [] [] =
        scan (flat ss) (length (flat ss)) (concat (map shape_fields ss)) (shapes_invalids 0 ss)"
    by (simp only: append_Nil append_Nil2 list.size add_0)
  also have "\<dots> = (concat (map shape_fields ss), shapes_invalids 0 ss, None)"
    by (rule scan_end) (rule order_refl)
  finally show ?thesis .
qed

lemma scan_flat_dangling:
  assumes "list_all shape_ok ss" and "is_bare d"
  shows "scan (flat ss @ [d]) 0 [] [] =
         (concat (map shape_fields ss), shapes_invalids 0 ss, Some d)"
proof -
  have "scan ([] @ flat ss @ [d]) (length ([] :: val list)) [] [] =
        scan ([] @ flat ss @ [d]) (length ([] :: val list) + length (flat ss))
          ([] @ concat (map shape_fields ss)) ([] @ shapes_invalids (length ([] :: val list)) ss)"
    by (rule scan_shapes [OF assms(1)])
  then have "scan (flat ss @ [d]) 0 [] [] =
        scan (flat ss @ [d]) (length (flat ss)) (concat (map shape_fields ss))
          (shapes_invalids 0 ss)"
    by (simp only: append_Nil append_Nil2 list.size add_0)
  also have "\<dots> = (concat (map shape_fields ss), shapes_invalids 0 ss,
                  Some ((flat ss @ [d]) ! length (flat ss)))"
    by (rule scan_dangling) (simp_all add: assms(2))
  finally show ?thesis by (simp only: nth_append_length)
qed


lemma flat_FieldShape: "flat (map FieldShape fs) = map VField fs"
  by (induction fs) (simp_all add: flat_def)

lemma fields_FieldShape: "concat (map shape_fields (map FieldShape fs)) = fs"
  by (induction fs) simp_all

lemma invalids_FieldShape: "shapes_invalids i (map FieldShape fs) = []"
  by (induction fs arbitrary: i) simp_all

lemma all_ok_FieldShape: "list_all shape_ok (map FieldShape fs)"
  by (induction fs) simp_all

lemma scan_flat_tail:
  assumes "list_all shape_ok ss" and "tail_ok d"
  shows "scan (flat ss @ tail_args d) 0 [] [] =
         (concat (map shape_fields ss), shapes_invalids 0 ss, d)"
proof (cases d)
  case None
  then show ?thesis
    using scan_flat [OF assms(1)] by (simp add: tail_args_def)
next
  case (Some k)
  with assms(2) have "is_bare k" by (simp add: tail_ok_def)
  from scan_flat_dangling [OF assms(1) this] Some show ?thesis
    by (simp add: tail_args_def)
qed

lemma length_shapes_invalids:
  "length (shapes_invalids i ss) = length (filter bad_pair ss)"
proof (induction ss arbitrary: i)
  case Nil
  then show ?case by simp
next
  case (Cons s ss)
  then show ?case by (cases s) simp_all
qed

lemma invalid_head:
  "s = PairShape k v \<Longrightarrow> p \<in> set (shapes_invalids i (s # ss)) \<Longrightarrow>
   p \<notin> set (shapes_invalids (i + length (shape_args s)) ss) \<Longrightarrow>
   \<exists>k' v'. s = PairShape k' v' \<and> \<not> is_string k' \<and> p = InvalidPair i k' v'"
  by (cases "is_string k") simp_all

lemma shapes_invalids_positions:
  "p \<in> set (shapes_invalids i ss) \<Longrightarrow>
   i \<le> position p \<and> Suc (position p) < i + length (flat ss) \<and>
   flat ss ! (position p - i) = pair_key p \<and>
   flat ss ! Suc (position p - i) = pair_value p \<and> \<not> is_string (pair_key p)"
proof (induction ss arbitrary: i)
  case Nil
  then show ?case by simp
next
  case (Cons s ss)
  let ?n = "length (shape_args s)"
  show ?case
  proof (cases "p \<in> set (shapes_invalids (i + ?n) ss)")
    case True
    from Cons.IH [OF True]
    have ih: "i + ?n \<le> position p" "Suc (position p) < i + ?n + length (flat ss)"
      "flat ss ! (position p - (i + ?n)) = pair_key p"
      "flat ss ! Suc (position p - (i + ?n)) = pair_value p" "\<not> is_string (pair_key p)"
      by simp_all
    have f: "flat (s # ss) = shape_args s @ flat ss"
      by (simp add: flat_def)
    have a: "position p - i = ?n + (position p - (i + ?n))"
      using ih(1) by arith
    have b: "Suc (position p - i) = ?n + Suc (position p - (i + ?n))"
      using ih(1) by arith
    have "flat (s # ss) ! (position p - i) = pair_key p"
      unfolding f a by (simp only: nth_append_length_plus ih(3))
    moreover have "flat (s # ss) ! Suc (position p - i) = pair_value p"
      unfolding f b by (simp only: nth_append_length_plus ih(4))
    moreover have "i \<le> position p" "Suc (position p) < i + length (flat (s # ss))"
      using ih(1,2) by (simp_all add: f)
    ultimately show ?thesis using ih(5) by simp
  next
    case False
    have mem: "p \<in> set (shapes_invalids i (s # ss))"
      by (rule Cons.prems)
    have "\<exists>k v. s = PairShape k v \<and> \<not> is_string k \<and> p = InvalidPair i k v"
    proof (cases s)
      case (FieldShape f)
      with mem False show ?thesis by simp
    next
      case (ContextShape c)
      with mem False show ?thesis by simp
    next
      case (PairShape k v)
      have "p \<notin> set (shapes_invalids (i + length (shape_args s)) ss)"
        by (rule False)
      with PairShape mem show ?thesis
        by (rule invalid_head)
    qed
    then obtain k v where s: "s = PairShape k v" "\<not> is_string k"
      and p: "p = InvalidPair i k v"
      by blast
    then show ?thesis by (simp add: flat_def)
  qed
qed

lemma shapes_invalids_sorted:
  "sorted_wrt (<) (map position (shapes_invalids i ss))"
proof (induction ss arbitrary: i)
  case Nil
  then show ?case by simp
next
  case (Cons s ss)
  show ?case
  proof (cases "bad_pair s")
    case False
    then show ?thesis using Cons.IH [of "i + length (shape_args s)"] by simp
  next
    case True
    then obtain k v where s: "s = PairShape k v" by (cases s) simp_all
    have "i < position p" if "p \<in> set (shapes_invalids (i + 2) ss)" for p
      using shapes_invalids_positions [OF that] by simp
    then show ?thesis
      using True s Cons.IH [of "i + 2"] by auto
  qed
qed

subsection \<open>Every tail is a sequence of shapes\<close>

lemma shapes_cover:
  "\<exists>ss d. kv = flat ss @ tail_args d \<and> list_all shape_ok ss \<and> tail_ok d"
proof (induction kv rule: length_induct)
  case (1 kv)
  show ?case
  proof (cases kv)
    case Nil
    have "kv = flat [] @ tail_args None \<and> list_all shape_ok [] \<and> tail_ok None"
      using Nil by (simp add: flat_def tail_args_def tail_ok_def)
    then show ?thesis by blast
  next
    case (Cons x r)
    show ?thesis
    proof (cases "is_bare x")
      case False
      have "length r < length kv" using Cons by simp
      with 1 obtain ss d where
        r: "r = flat ss @ tail_args d" "list_all shape_ok ss" "tail_ok d"
        by blast
      from False obtain s where s: "shape_args s = [x]" "shape_ok s"
      proof (cases x)
        case (VField f)
        have "shape_args (FieldShape f) = [x]" "shape_ok (FieldShape f)"
          using VField by simp_all
        then show ?thesis by (rule that)
      next
        case (VContext c)
        have "shape_args (ContextShape c) = [x]" "shape_ok (ContextShape c)"
          using VContext by simp_all
        then show ?thesis by (rule that)
      qed simp_all
      have "kv = flat (s # ss) @ tail_args d \<and> list_all shape_ok (s # ss) \<and> tail_ok d"
        using Cons r s by (simp add: flat_def)
      then show ?thesis by blast
    next
      case True
      show ?thesis
      proof (cases r)
        case Nil
        have "kv = flat [] @ tail_args (Some x) \<and> list_all shape_ok [] \<and> tail_ok (Some x)"
          using Nil Cons True by (simp add: flat_def tail_args_def tail_ok_def)
        then show ?thesis by blast
      next
        case (Cons v r')
        with \<open>kv = x # r\<close> have "length r' < length kv" by simp
        with 1 obtain ss d where
          r: "r' = flat ss @ tail_args d" "list_all shape_ok ss" "tail_ok d"
          by blast
        have "kv = flat (PairShape x v # ss) @ tail_args d \<and>
              list_all shape_ok (PairShape x v # ss) \<and> tail_ok d"
          using Cons \<open>kv = x # r\<close> r True by (simp add: flat_def)
        then show ?thesis by blast
      qed
    qed
  qed
qed

subsection \<open>What \<open>logw\<close> writes\<close>

lemma zap_Enabled_written [simp]:
  "zap_Enabled zl lvl (w\<lparr>written := x\<rparr>) = zap_Enabled zl lvl w"
  by (simp add: zap_Enabled_def split: option.splits)

lemma zap_Enabled_mono:
  "zap_Enabled zl lvl w \<Longrightarrow> lvl \<le> lvl' \<Longrightarrow> zap_Enabled zl lvl' w"
  by (auto simp add: zap_Enabled_def split: option.splits)

lemma zap_Check_None:
  "zap_Check zl lvl msg w = None \<Longrightarrow> \<not> zap_Enabled zl lvl w"
  by (auto simp add: zap_Check_def Let_def split: if_splits)

lemma ce_Write_checked:
  "zap_Check zl lvl msg w = Some ce \<Longrightarrow>
   ce_Write ce fs w' =
     (terminal zl lvl msg,
      if zap_Enabled zl lvl w then w'\<lparr>written := written w' @ [record_of zl lvl msg fs]\<rparr>
      else w')"
  by (auto simp add: zap_Check_def ce_Write_def terminal_def record_of_def Let_def level_defs
      split: if_splits)

lemma zap_DPanic_eq:
  "zap_DPanic zl m fs w =
     (if development zl then Panic m else Ok (),
      if zap_Enabled zl DPanicLevel w
      then w\<lparr>written := written w @ [record_of zl DPanicLevel m fs]\<rparr> else w)"
  by (auto simp add: zap_DPanic_def zap_Check_def ce_Write_def record_of_def Let_def level_defs)

lemma scan_Nil: "scan [] 0 [] [] = ([], [], None)"
  by (rule scan_end) simp

lemma logw_unfold:
  assumes "deref w l = Some lg" and "scan kv 0 [] [] = (fs, ivs, d)"
  shows "logw l lvl msg kv w =
     (if lvl < DPanicLevel \<and> \<not> zap_Enabled (base lg) lvl w then (Ok (), w)
      else
        (case zap_Check (base lg) lvl msg w of
           None \<Rightarrow> (Ok (), w)
         | Some ce \<Rightarrow>
             and_then
               (and_then
                  (case d of
                     None \<Rightarrow> (Ok (), w)
                   | Some k \<Rightarrow>
                       zap_DPanic (base lg) danglingKeyErrMsg [zap_Any ''ignored'' k] w)
                  (\<lambda>w1. if ivs \<noteq> []
                         then zap_DPanic (base lg) nonStringKeyErrMsg
                                [zap_Array ''invalid'' ivs] w1
                         else (Ok (), w1)))
               (ce_Write ce fs)))"
proof (cases "kv = []")
  case True
  with assms(2) have "fs = []" "ivs = []" "d = None"
    by (simp_all add: scan_Nil)
  with True assms(1) show ?thesis
    by (simp add: logw_def split: option.splits)
next
  case False
  with assms show ?thesis
    by (simp add: logw_def split: option.splits)
qed

lemma logw_below_gate:
  assumes "deref w l = Some lg" and "\<not> zap_Enabled (base lg) lvl w"
  shows "written (snd (logw l lvl msg kv w)) = written w"
proof -
  obtain fs ivs d where s: "scan kv 0 [] [] = (fs, ivs, d)"
    by (cases "scan kv 0 [] []") auto
  show ?thesis
  proof (cases "lvl < DPanicLevel")
    case True
    with assms s show ?thesis by (simp add: logw_unfold [OF assms(1) s])
  next
    case False
    with assms(2) have nd: "\<not> zap_Enabled (base lg) DPanicLevel w"
      using zap_Enabled_mono [of "base lg" DPanicLevel w lvl] by auto
    show ?thesis
    proof (cases "zap_Check (base lg) lvl msg w")
      case None
      then show ?thesis by (simp add: logw_unfold [OF assms(1) s])
    next
      case (Some ce)
      show ?thesis
        using False nd assms(2)
        by (cases d; cases "development (base lg)")
           (simp_all add: logw_unfold [OF assms(1) s] Some zap_DPanic_eq
              ce_Write_checked [OF Some])
    qed
  qed
qed

lemma logw_production:
  assumes "deref w l = Some lg" and "\<not> development (base lg)"
    and "zap_Enabled (base lg) lvl w" and "scan kv 0 [] [] = (fs, ivs, d)"
  shows "logw l lvl msg kv w =
     (terminal (base lg) lvl msg,
      w\<lparr>written := written w @
          (if zap_Enabled (base lg) DPanicLevel w then diagnostics (base lg) ivs d else []) @
          [record_of (base lg) lvl msg fs]\<rparr>)"
proof -
  obtain ce where ce: "zap_Check (base lg) lvl msg w = Some ce"
    using assms(3) zap_Check_None [of "base lg" lvl msg w]
    by (cases "zap_Check (base lg) lvl msg w") auto
  show ?thesis
    using assms(2,3)
    by (cases d)
       (simp_all add: logw_unfold [OF assms(1,4)] ce zap_DPanic_eq ce_Write_checked [OF ce]
          diagnostics_def dangling_diagnostic_def invalid_diagnostic_def zap_Array_def Any_def)
qed

lemma logw_well_formed:
  assumes "deref w l = Some lg" and "zap_Enabled (base lg) lvl w"
    and "scan kv 0 [] [] = (fs, [], None)"
  shows "logw l lvl msg kv w =
     (terminal (base lg) lvl msg,
      w\<lparr>written := written w @ [record_of (base lg) lvl msg fs]\<rparr>)"
proof -
  obtain ce where ce: "zap_Check (base lg) lvl msg w = Some ce"
    using assms(2) zap_Check_None [of "base lg" lvl msg w]
    by (cases "zap_Check (base lg) lvl msg w") auto
  show ?thesis
    using assms(2)
    by (simp add: logw_unfold [OF assms(1,3)] ce ce_Write_checked [OF ce])
qed

lemma SetLevel_facts:
  assumes "deref w l = Some lg"
  shows "deref (snd (SetLevel l X w)) l = Some lg"
    and "written (snd (SetLevel l X w)) = written w"
    and "levels (snd (SetLevel l X w)) = (levels w)[level lg := X]"
  using assms by (simp_all add: SetLevel_def deref_def split: option.splits if_splits)

lemma SetLevel_Enabled:
  assumes "deref w l = Some lg" and "core_level (base lg) = Some (level lg)"
    and "level lg < length (levels w)"
  shows "zap_Enabled (base lg) lvl (snd (SetLevel l X w)) = (X \<le> lvl)"
  using assms by (simp add: zap_Enabled_def SetLevel_facts(3) [OF assms(1)])

subsection \<open>A production Logger built at program start\<close>

lemma production_deref:
  "deref (snd (NewLogger start)) (Some 0) =
     Some \<lparr>base = \<lparr>core_level = Some 0, core_fields = [], zname = [], development = False\<rparr>,
           level = 0\<rparr>"
  by (simp add: NewLogger_def start_def deref_def)

lemma production_levels: "levels (snd (NewLogger start)) = [InfoLevel]"
  by (simp add: NewLogger_def start_def)

lemma production_written: "written (snd (NewLogger start)) = []"
  by (simp add: NewLogger_def start_def)

lemma production_Enabled:
  "zap_Enabled \<lparr>core_level = Some 0, core_fields = [], zname = [], development = False\<rparr> lvl
     (snd (NewLogger start)) = (InfoLevel \<le> lvl)"
  by (simp add: zap_Enabled_def production_levels)

subsection \<open>The whole of \<open>logw\<close>\<close>

lemma wrote_Nil [simp]: "wrote w [] = w"
  by (simp add: wrote_def)

lemma wrote_wrote [simp]: "wrote (wrote w es) es' = wrote w (es @ es')"
  by (simp add: wrote_def)

lemma written_wrote [simp]: "written (wrote w es) = written w @ es"
  by (simp add: wrote_def)

lemma zap_Enabled_wrote [simp]: "zap_Enabled zl lvl (wrote w es) = zap_Enabled zl lvl w"
  by (simp add: wrote_def)

lemma zap_Check_None_iff:
  "(zap_Check zl lvl msg w = None) = (\<not> scan_runs zl lvl w)"
  by (auto simp add: zap_Check_def scan_runs_def Let_def level_defs)

lemma zap_DPanic_wrote:
  "zap_DPanic zl m fs w =
     (if development zl then Panic m else Ok (),
      wrote w (if zap_Enabled zl DPanicLevel w then [record_of zl DPanicLevel m fs] else []))"
  by (simp add: zap_DPanic_eq wrote_def)

lemma ce_Write_wrote:
  "zap_Check zl lvl msg w = Some ce \<Longrightarrow>
   ce_Write ce fs w' =
     (terminal zl lvl msg,
      wrote w' (if zap_Enabled zl lvl w then [record_of zl lvl msg fs] else []))"
  by (simp add: ce_Write_checked wrote_def)

lemma logw_not_run:
  assumes "deref w l = Some lg" and "\<not> scan_runs (base lg) lvl w"
  shows "logw l lvl msg kv w = (Ok (), w)"
proof -
  obtain fs ivs d where s: "scan kv 0 [] [] = (fs, ivs, d)"
    by (cases "scan kv 0 [] []") auto
  from assms(2) have "zap_Check (base lg) lvl msg w = None"
    by (simp add: zap_Check_None_iff)
  then show ?thesis
    by (simp add: logw_unfold [OF assms(1) s])
qed

lemma logw_runs:
  assumes "deref w l = Some lg" and "scan_runs (base lg) lvl w"
    and "scan kv 0 [] [] = (fs, ivs, d)"
  shows "logw l lvl msg kv w =
     (case d of
        Some k \<Rightarrow>
          if development (base lg)
          then (Panic danglingKeyErrMsg,
                wrote w (if zap_Enabled (base lg) DPanicLevel w
                         then [dangling_diagnostic (base lg) k] else []))
          else (terminal (base lg) lvl msg,
                wrote w ((if zap_Enabled (base lg) DPanicLevel w
                          then diagnostics (base lg) ivs (Some k) else []) @
                         (if zap_Enabled (base lg) lvl w
                          then [record_of (base lg) lvl msg fs] else [])))
      | None \<Rightarrow>
          if development (base lg) \<and> ivs \<noteq> []
          then (Panic nonStringKeyErrMsg,
                wrote w (if zap_Enabled (base lg) DPanicLevel w
                         then [invalid_diagnostic (base lg) ivs] else []))
          else (terminal (base lg) lvl msg,
                wrote w ((if zap_Enabled (base lg) DPanicLevel w
                          then diagnostics (base lg) ivs None else []) @
                         (if zap_Enabled (base lg) lvl w
                          then [record_of (base lg) lvl msg fs] else []))))"
proof -
  from assms(2) obtain ce where ce: "zap_Check (base lg) lvl msg w = Some ce"
    using zap_Check_None_iff [of "base lg" lvl msg w]
    by (cases "zap_Check (base lg) lvl msg w") auto
  have g: "(lvl < DPanicLevel \<and> \<not> zap_Enabled (base lg) lvl w) = False"
    using assms(2) by (auto simp add: scan_runs_def level_defs)
  show ?thesis
  proof (cases d)
    case None
    show ?thesis
      by (cases "development (base lg)"; cases "ivs = []")
         (simp_all add: logw_unfold [OF assms(1,3)] g ce None zap_DPanic_wrote
            ce_Write_wrote [OF ce] diagnostics_def invalid_diagnostic_def zap_Array_def)
  next
    case (Some k)
    show ?thesis
      by (cases "development (base lg)"; cases "ivs = []")
         (simp_all add: logw_unfold [OF assms(1,3)] g ce Some zap_DPanic_wrote
            ce_Write_wrote [OF ce] diagnostics_def dangling_diagnostic_def
            invalid_diagnostic_def zap_Array_def Any_def)
  qed
qed





lemma SetLevel_eq:
  "deref w l = Some lg \<Longrightarrow> SetLevel l X w = (Ok (), w\<lparr>levels := (levels w)[level lg := X]\<rparr>)"
  by (simp add: SetLevel_def)

lemma development_deref:
  "deref (snd (NewDevelopmentLogger start)) (Some 0) =
     Some \<lparr>base = \<lparr>core_level = Some 0, core_fields = [], zname = [], development = True\<rparr>,
           level = 0\<rparr>"
  by (simp add: NewDevelopmentLogger_def start_def deref_def)

lemma development_written: "written (snd (NewDevelopmentLogger start)) = []"
  by (simp add: NewDevelopmentLogger_def start_def)

lemma development_Enabled:
  "zap_Enabled \<lparr>core_level = Some 0, core_fields = [], zname = [], development = True\<rparr> lvl
     (snd (NewDevelopmentLogger start)) = (DebugLevel \<le> lvl)"
  by (simp add: zap_Enabled_def NewDevelopmentLogger_def start_def)

subsection \<open>The hexadecimal form of a trace identifier\<close>

lemma hex_digit_inj:
  assumes "m < 16" and "n < 16" and "hex_digit m = hex_digit n"
  shows "m = n"
proof -
  have d: "distinct ''0123456789abcdef''" by simp
  have l: "length ''0123456789abcdef'' = 16" by simp
  from assms have "''0123456789abcdef'' ! m = ''0123456789abcdef'' ! n"
    by (simp add: hex_digit_def)
  with d l assms(1,2) show ?thesis
    by (simp only: nth_eq_iff_index_eq)
qed

lemma fifteen_mask: "(15 :: 128 word) = mask 4"
  by (simp add: mask_eq_exp_minus_1)

lemma nibble_less: "unat (x AND (15 :: 128 word)) < 16"
proof -
  have "x AND mask 4 < (2 :: 128 word) ^ 4"
    by (rule and_mask_less') simp
  then have "unat (x AND mask 4) < unat ((2 :: 128 word) ^ 4)"
    by (simp only: word_less_nat_alt)
  then show ?thesis by (simp add: fifteen_mask)
qed

lemma hex_digit_nibble:
  "hex_digit (unat (x AND (15 :: 128 word))) = ''0123456789abcdef'' ! unat (x AND 15)"
  using nibble_less [of x] by (simp add: hex_digit_def)

lemma TraceID_String_nth:
  "i < 32 \<Longrightarrow> TraceID_String t ! i = hex_digit (unat (drop_bit (4 * (31 - i)) t AND 15))"
  by (simp add: TraceID_String_def)

lemma TraceID_String_inj:
  assumes "TraceID_String t = TraceID_String t'"
  shows "t = t'"
proof (rule bit_word_eqI)
  fix n
  assume "n < LENGTH(128)"
  then have n: "n < 128" by simp
  let ?k = "n div 4" and ?j = "n mod 4"
  let ?i = "31 - ?k"
  from n have k: "?k \<le> 31" by arith
  then have i: "?i < 32" and ki: "4 * (31 - ?i) = 4 * ?k" by arith+
  have j: "?j < 4" by simp
  from assms have "TraceID_String t ! ?i = TraceID_String t' ! ?i" by simp
  then have "hex_digit (unat (drop_bit (4 * ?k) t AND 15)) =
             hex_digit (unat (drop_bit (4 * ?k) t' AND 15))"
    by (simp only: TraceID_String_nth [OF i] ki)
  then have "unat (drop_bit (4 * ?k) t AND 15) = unat (drop_bit (4 * ?k) t' AND 15)"
    by (rule hex_digit_inj [OF nibble_less nibble_less])
  then have e: "drop_bit (4 * ?k) t AND 15 = drop_bit (4 * ?k) t' AND 15"
    by (simp only: word_unat_eq_iff)
  have b: "bit (drop_bit (4 * ?k) x AND (15 :: 128 word)) ?j = bit x n" for x
  proof -
    have s: "4 * ?k + ?j = n" by simp
    have lt: "(n mod 4 < 128) = True" using j by arith
    show ?thesis
      by (simp add: fifteen_mask bit_and_iff bit_drop_bit_eq bit_mask_iff s lt)
  qed
  from e have "bit (drop_bit (4 * ?k) t AND 15) ?j = bit (drop_bit (4 * ?k) t' AND 15) ?j"
    by simp
  then show "bit t n = bit t' n"
    by (simp only: b)
qed

lemma TraceID_String_inline:
  "TraceID_String t =
     map (\<lambda>i. ''0123456789abcdef'' ! unat (drop_bit (4 * (31 - i)) t AND 15)) [0..<32]"
  unfolding TraceID_String_def by (simp only: hex_digit_nibble)

lemma TraceID_String_example:
  "TraceID_String 0x0af7651916cd43dd8448eb211c80319c = ''0af7651916cd43dd8448eb211c80319c''"
  by code_simp

section \<open>Trace extraction and the Field constructors\<close>

text \<open>
  C7.  For every context, \<open>TraceId\<close> returns a Field with key \<open>traceId\<close> of string
  type, and its string is never empty.  For a context with no span, or with the all-zero
  identifier, the string is the sentinel \<open>unknown\<close>.  For a context that carries a valid
  identifier, the string is the 32 lower-case hexadecimal digits of the identifier, most
  significant first; it is not the sentinel, and two different valid identifiers give two
  different Fields.
\<close>

theorem TraceId_always_present:
  "Key (TraceId ctx) = ''traceId'' \<and> Type (TraceId ctx) = StringType \<and>
   String (TraceId ctx) =
     (if IsValid (SpanContext_TraceID ctx) then TraceID_String (SpanContext_TraceID ctx)
      else ''unknown'') \<and>
   String (TraceId ctx) \<noteq> [] \<and>
   TraceId (Context None) = Field ''traceId'' StringType 0 ''unknown'' VNil \<and>
   TraceId (Context (Some 0)) = Field ''traceId'' StringType 0 ''unknown'' VNil \<and>
   (t \<noteq> 0 \<longrightarrow>
      TraceId (Context (Some t)) =
        Field ''traceId'' StringType 0
          (map (\<lambda>i. ''0123456789abcdef'' ! unat (drop_bit (4 * (31 - i)) t AND 15)) [0..<32])
          VNil \<and>
      length (String (TraceId (Context (Some t)))) = 32 \<and>
      String (TraceId (Context (Some t))) \<noteq> ''unknown'') \<and>
   (t \<noteq> 0 \<and> u \<noteq> 0 \<and> TraceId (Context (Some t)) = TraceId (Context (Some u)) \<longrightarrow> t = u) \<and>
   TraceId (Context (Some 0x0af7651916cd43dd8448eb211c80319c)) =
     Field ''traceId'' StringType 0 ''0af7651916cd43dd8448eb211c80319c'' VNil"
proof -
  have g: "Key (TraceId ctx) = ''traceId'' \<and> Type (TraceId ctx) = StringType \<and>
   String (TraceId ctx) =
     (if IsValid (SpanContext_TraceID ctx) then TraceID_String (SpanContext_TraceID ctx)
      else ''unknown'') \<and>
   String (TraceId ctx) \<noteq> [] \<and>
   TraceId (Context None) = Field ''traceId'' StringType 0 ''unknown'' VNil \<and>
   TraceId (Context (Some 0)) = Field ''traceId'' StringType 0 ''unknown'' VNil"
    using length_TraceID_String [of "SpanContext_TraceID ctx"]
    by (auto simp add: TraceId_def NoTraceId_def SpanContext_TraceID_def IsValid_def)
  have v: "TraceId (Context (Some x)) = Field ''traceId'' StringType 0 (TraceID_String x) VNil"
    if "x \<noteq> 0" for x
    using that by (simp add: TraceId_def SpanContext_TraceID_def IsValid_def)
  have a: "t \<noteq> 0 \<longrightarrow>
      TraceId (Context (Some t)) =
        Field ''traceId'' StringType 0
          (map (\<lambda>i. ''0123456789abcdef'' ! unat (drop_bit (4 * (31 - i)) t AND 15)) [0..<32])
          VNil \<and>
      length (String (TraceId (Context (Some t)))) = 32 \<and>
      String (TraceId (Context (Some t))) \<noteq> ''unknown''"
  proof
    assume t: "t \<noteq> 0"
    have "TraceId (Context (Some t)) = Field ''traceId'' StringType 0
          (map (\<lambda>i. ''0123456789abcdef'' ! unat (drop_bit (4 * (31 - i)) t AND 15)) [0..<32])
          VNil"
      using v [OF t] by (simp only: TraceID_String_inline)
    moreover have "length (String (TraceId (Context (Some t)))) = 32"
      by (simp add: v [OF t] length_TraceID_String)
    moreover have "String (TraceId (Context (Some t))) \<noteq> ''unknown''"
      using TraceID_String_not_sentinel [of t] by (simp add: v [OF t] NoTraceId_def)
    ultimately show "TraceId (Context (Some t)) =
        Field ''traceId'' StringType 0
          (map (\<lambda>i. ''0123456789abcdef'' ! unat (drop_bit (4 * (31 - i)) t AND 15)) [0..<32])
          VNil \<and>
      length (String (TraceId (Context (Some t)))) = 32 \<and>
      String (TraceId (Context (Some t))) \<noteq> ''unknown''"
      by blast
  qed
  have b: "t \<noteq> 0 \<and> u \<noteq> 0 \<and> TraceId (Context (Some t)) = TraceId (Context (Some u)) \<longrightarrow> t = u"
  proof (intro impI, elim conjE)
    assume "t \<noteq> 0" and "u \<noteq> 0" and "TraceId (Context (Some t)) = TraceId (Context (Some u))"
    then have "TraceID_String t = TraceID_String u"
      by (simp add: v)
    then show "t = u" by (rule TraceID_String_inj)
  qed
  have n: "(0x0af7651916cd43dd8448eb211c80319c :: 128 word) \<noteq> 0" by simp
  have c: "TraceId (Context (Some 0x0af7651916cd43dd8448eb211c80319c)) =
     Field ''traceId'' StringType 0 ''0af7651916cd43dd8448eb211c80319c'' VNil"
    by (simp only: v [OF n] TraceID_String_example)
  from g a b c show ?thesis by blast
qed

text \<open>C7 on the identifiers 1 and 2: the string of the first, and the two Fields differ.\<close>

theorem TraceId_always_present_witness:
  "(1 :: 128 word) \<noteq> 0 \<and> (2 :: 128 word) \<noteq> 0 \<and>
   String (TraceId (Context (Some 1))) = ''00000000000000000000000000000001'' \<and>
   TraceId (Context (Some 1)) \<noteq> TraceId (Context (Some 2))"
proof -
  have h: "(1 :: 128 word) \<noteq> 0" "(2 :: 128 word) \<noteq> 0" "(1 :: 128 word) \<noteq> 2"
    by simp_all
  note t = TraceId_always_present [of "Context None" 1 2]
  from t h(1) have "TraceId (Context (Some 1)) =
        Field ''traceId'' StringType 0
          (map (\<lambda>i. ''0123456789abcdef'' ! unat (drop_bit (4 * (31 - i)) (1 :: 128 word) AND 15))
             [0..<32])
          VNil"
    by blast
  moreover have "map (\<lambda>i. ''0123456789abcdef'' ! unat (drop_bit (4 * (31 - i)) (1 :: 128 word) AND 15))
             [0..<32] = ''00000000000000000000000000000001''"
    by code_simp
  ultimately have a: "String (TraceId (Context (Some 1))) = ''00000000000000000000000000000001''"
    by simp
  from t h have b: "TraceId (Context (Some 1)) \<noteq> TraceId (Context (Some 2))"
    by blast
  from h a b show ?thesis by blast
qed

text \<open>
  C5, as stated: \<open>Error\<close> returns a Field for every input, also for a nil error.  The
  code calls \<open>err.Error()\<close> on the nil interface, so no Field is returned.
\<close>

theorem Error_nil_panics: "\<not> (\<exists>f. Error NilError = Ok f)"
  by (simp add: Error_def)

text \<open>
  C5, amended: \<open>Error\<close> returns a Field exactly when its argument is a non-nil error
  whose \<open>Error()\<close> method returns a string, and the Field is then the string Field with
  key \<open>error\<close> and that string.  On a nil error it panics with a nil dereference, and
  what the method itself does instead of returning (a panic, as on a nil pointer held in
  the interface) reaches the caller.  Every other constructor returns a Field, with the
  key it is given or the key of its name.
\<close>

theorem Error_follows_method:
  "(Error err = Ok f) = (\<exists>s. err = ErrorValue (Ok s) \<and> f = Field ''error'' StringType 0 s VNil) \<and>
   Error (ErrorValue (Ok s)) = Ok (Field ''error'' StringType 0 s VNil) \<and>
   Error NilError = Panic nil_dereference \<and>
   Error (ErrorValue (Panic m)) = Panic m \<and>
   Error (ErrorValue Exit) = Exit \<and>
   Key (Any k v) = k \<and> Key (Object k v) = k \<and> Key (Binary k b) = k \<and>
   Key (Bool k c) = k \<and> Key (ByteString k b) = k \<and> Key (Namespace k) = k \<and>
   Key (Method s) = ''method'' \<and> Key (Action s) = ''action'' \<and>
   Key (Topic s) = ''topic'' \<and> Key (Partition n) = ''partition'' \<and>
   Key (Offset n) = ''offset'' \<and> Key (ProductID n) = ''product_id'' \<and>
   Key (Count n) = ''count'' \<and> Key (Query s) = ''query'' \<and> Key (File s) = ''file''"
proof -
  have "(Error err = Ok f) =
        (\<exists>s. err = ErrorValue (Ok s) \<and> f = Field ''error'' StringType 0 s VNil)"
    by (auto simp add: Error_def split: go_error.splits result.splits)
  then show ?thesis
    by (simp add: Error_def Any_def Object_def Binary_def Bool_def ByteString_def
      Namespace_def Method_def Action_def Topic_def Partition_def Offset_def ProductID_def
      Count_def Query_def File_def)
qed

section \<open>Derivation with \<open>With\<close>, and \<open>DPanicw\<close>\<close>

text \<open>
  C1, evaluated on the code: a Logger is built, a sibling is derived from it with
  \<open>Named\<close>, \<open>With\<close> is called on the first Logger with the Field
  \<open>method = GET\<close>, and a record is then logged through each.  \<open>With\<close> returns the
  receiver itself and the record written through the receiver carries the Field; the
  sibling, which \<open>Named\<close> made by copying the struct, does not.
\<close>

theorem With_changes_receiver:
  "(case NewLogger start of (l, w) \<Rightarrow>
      (case Named l ''sub'' w of (n, w1) \<Rightarrow>
         (case With l [Method ''GET''] w1 of (r, w2) \<Rightarrow>
            r = Ok l \<and>
            map e_context (written (snd (Infow l ''msg'' [] w2))) = [[Method ''GET'']] \<and>
            n = Ok (Some 1) \<and>
            map e_context (written (snd (Infow (Some 1) ''msg'' [] w2))) = [[]])))"
  by code_simp

text \<open>
  C2, evaluated on the code: on a fresh Logger, \<open>DPanicw\<close> writes its record at Info
  severity, where the method \<open>DPanic\<close>, which takes a context, writes at DPanic
  severity.
\<close>

theorem DPanicw_dispatches_at_Info:
  "(case NewLogger start of (l, w) \<Rightarrow> map e_level (written (snd (DPanicw l ''msg'' [] w))))
     = [InfoLevel] \<and>
   (case NewLogger start of (l, w) \<Rightarrow>
      map e_level (written (snd (DPanic l (Context None) ''msg'' [] w)))) = [DPanicLevel]"
  by code_simp

section \<open>The singleton\<close>

text \<open>
  C10.  \<open>L\<close> never returns nil, and the slot holds what it returned.  When the slot is
  empty, \<open>L\<close> returns the address of a Logger that \<open>NewLogger\<close> has just built (a
  production Logger gated by a new level cell set to Info) and has stored it in the slot;
  when the slot is full, \<open>L\<close> returns its content and changes nothing.  When the slot
  refers to a Logger, so does the result.
\<close>

theorem L_never_nil:
  "fst (L w) \<noteq> None \<and> defaultLogger (snd (L w)) = fst (L w) \<and>
   (defaultLogger w = None \<longrightarrow>
      fst (L w) = Some (length (loggers w)) \<and>
      L w = (case NewLogger w of (l, w') \<Rightarrow> (l, w'\<lparr>defaultLogger := l\<rparr>)) \<and>
      deref (snd (L w)) (fst (L w)) =
        Some \<lparr>base = \<lparr>core_level = Some (length (levels w)), core_fields = [], zname = [],
                        development = False\<rparr>,
              level = length (levels w)\<rparr> \<and>
      levels (snd (L w)) = levels w @ [InfoLevel]) \<and>
   (defaultLogger w \<noteq> None \<longrightarrow> L w = (defaultLogger w, w)) \<and>
   (deref w (defaultLogger w) \<noteq> None \<longrightarrow>
      deref (snd (L w)) (fst (L w)) = deref w (defaultLogger w))"
  by (auto simp add: L_def NewLogger_def deref_def Let_def split: option.splits)

text \<open>C10 at program start, where the slot is empty, and in the state after that first
  call, where it is full.\<close>

theorem L_never_nil_witness:
  "defaultLogger start = None \<and> fst (L start) = Some 0 \<and>
   deref (snd (L start)) (fst (L start)) =
     Some \<lparr>base = \<lparr>core_level = Some 0, core_fields = [], zname = [], development = False\<rparr>,
           level = 0\<rparr> \<and>
   defaultLogger (snd (L start)) = Some 0 \<and>
   L (snd (L start)) = (Some 0, snd (L start))"
proof -
  have h: "defaultLogger start = None"
    by (simp add: start_def)
  from L_never_nil [of start] h
  have a: "fst (L start) = Some (length (loggers start))"
    and b: "deref (snd (L start)) (fst (L start)) =
        Some \<lparr>base = \<lparr>core_level = Some (length (levels start)), core_fields = [],
                        zname = [], development = False\<rparr>,
              level = length (levels start)\<rparr>"
    and c: "defaultLogger (snd (L start)) = fst (L start)"
    by blast+
  from a c have f: "defaultLogger (snd (L start)) \<noteq> None"
    by simp
  from L_never_nil [of "snd (L start)"] f
  have d: "L (snd (L start)) = (defaultLogger (snd (L start)), snd (L start))"
    by blast
  from a b c d show ?thesis
    using h by (simp add: start_def)
qed

section \<open>The normalizer\<close>

text \<open>
  C9.  A tail that consists of Fields only is handed on unchanged: the scan returns the
  same Fields in the same order, no invalid pair and no dangling key, and a call that the
  gate admits writes exactly one record, whose Fields are the tail, and nothing else.
\<close>

theorem fields_pass_through:
  "scan (map VField fs) 0 [] [] = (fs, [], None) \<and>
   (deref w l = Some lg \<longrightarrow> zap_Enabled (base lg) lvl w \<longrightarrow>
      logw l lvl msg (map VField fs) w =
        (terminal (base lg) lvl msg,
         w\<lparr>written := written w @ [record_of (base lg) lvl msg fs]\<rparr>))"
proof -
  have s: "scan (map VField fs) 0 [] [] = (fs, [], None)"
    using scan_flat [OF all_ok_FieldShape, of fs]
    by (simp only: flat_FieldShape fields_FieldShape invalids_FieldShape)
  show ?thesis
    using s logw_well_formed [of w l lg lvl "map VField fs" fs msg] by blast
qed

text \<open>C9 on a production Logger at Info level, with the tail \<open>Method("GET"), Count(3)\<close>.\<close>

theorem fields_pass_through_witness:
  "logw (Some 0) InfoLevel ''msg'' (map VField [Method ''GET'', Count 3]) (snd (NewLogger start)) =
     (Ok (),
      (snd (NewLogger start))
        \<lparr>written := [\<lparr>e_level = InfoLevel, e_name = [], e_msg = ''msg'', e_context = [],
                       e_fields = [Method ''GET'', Count 3]\<rparr>]\<rparr>)"
proof -
  let ?w = "snd (NewLogger start)"
  let ?lg = "\<lparr>base = \<lparr>core_level = Some 0, core_fields = [], zname = [], development = False\<rparr>,
           level = 0\<rparr>"
  have e: "zap_Enabled (base ?lg) InfoLevel ?w"
    by (simp add: production_Enabled)
  from fields_pass_through [of "[Method ''GET'', Count 3]" ?w "Some 0" ?lg InfoLevel "''msg''"]
    production_deref e
  have "logw (Some 0) InfoLevel ''msg'' (map VField [Method ''GET'', Count 3]) ?w =
        (terminal (base ?lg) InfoLevel ''msg'',
         ?w\<lparr>written := written ?w @
            [record_of (base ?lg) InfoLevel ''msg'' [Method ''GET'', Count 3]]\<rparr>)"
    by blast
  then show ?thesis
    by (simp add: terminal_def record_of_def level_defs production_written)
qed




text \<open>
  C3, as stated: whatever the Logger, the Fields read before a dangling key are still
  written with the original record.  On a development Logger the diagnostic for the
  dangling key panics once it is written, and the record \<open>msg\<close> with \<open>k = 1\<close> is not
  written.
\<close>

theorem dangling_key_development:
  "(case NewDevelopmentLogger start of
      (l, w) \<Rightarrow>
        (case Infow l ''msg'' [VString ''k'', VInt 1, VString ''d''] w of
           (r, w') \<Rightarrow>
             r = Panic danglingKeyErrMsg \<and>
             map e_msg (written w') = [danglingKeyErrMsg]))"
  by code_simp

text \<open>
  C3, amended.  For every tail handed to \<open>logw\<close> that reads as shapes followed by one
  bare key, in a call for which the scan runs: the scan collects the Fields of the shapes
  and none for the key, and returns the key as dangling.  The dangling-key diagnostic, at
  DPanic severity and carrying the key, is issued once, and is written if the core is
  enabled at DPanic.  On a Logger that is not in development mode, the diagnostic for the
  invalid pairs follows if there are any, then the original record with the Fields of the
  shapes is written if the core is enabled at the call's level, and the call ends as its
  level does.  On a development Logger the call panics with the message of the
  dangling-key diagnostic, and that diagnostic is all it may have written.
\<close>

theorem dangling_key_diagnostic:
  assumes "deref w l = Some lg" and "scan_runs (base lg) lvl w"
    and "list_all shape_ok ss" and "is_bare d"
  shows "scan (flat ss @ [d]) 0 [] [] =
           (concat (map shape_fields ss), shapes_invalids 0 ss, Some d) \<and>
         logw l lvl msg (flat ss @ [d]) w =
           (if development (base lg)
            then (Panic danglingKeyErrMsg,
                  wrote w (if zap_Enabled (base lg) DPanicLevel w
                           then [dangling_diagnostic (base lg) d] else []))
            else (terminal (base lg) lvl msg,
                  wrote w
                    ((if zap_Enabled (base lg) DPanicLevel w
                      then dangling_diagnostic (base lg) d #
                           (if shapes_invalids 0 ss = [] then []
                            else [invalid_diagnostic (base lg) (shapes_invalids 0 ss)])
                      else []) @
                     (if zap_Enabled (base lg) lvl w
                      then [record_of (base lg) lvl msg (concat (map shape_fields ss))]
                      else []))))"
proof -
  have s: "scan (flat ss @ [d]) 0 [] [] =
           (concat (map shape_fields ss), shapes_invalids 0 ss, Some d)"
    by (rule scan_flat_dangling [OF assms(3,4)])
  from logw_runs [OF assms(1,2) s, of msg] s show ?thesis
    by (simp add: diagnostics_def)
qed

text \<open>C3, amended, at Info level with the tail \<open>"k", 1, "d"\<close>, on a production Logger and
  on a development Logger.\<close>

theorem dangling_key_diagnostic_witness:
  "logw (Some 0) InfoLevel ''msg'' [VString ''k'', VInt 1, VString ''d'']
      (snd (NewLogger start)) =
     (Ok (),
      wrote (snd (NewLogger start))
        [\<lparr>e_level = DPanicLevel, e_name = [], e_msg = danglingKeyErrMsg, e_context = [],
          e_fields = [Any ''ignored'' (VString ''d'')]\<rparr>,
         \<lparr>e_level = InfoLevel, e_name = [], e_msg = ''msg'', e_context = [],
          e_fields = [Any ''k'' (VInt 1)]\<rparr>]) \<and>
   logw (Some 0) InfoLevel ''msg'' [VString ''k'', VInt 1, VString ''d'']
      (snd (NewDevelopmentLogger start)) =
     (Panic danglingKeyErrMsg,
      wrote (snd (NewDevelopmentLogger start))
        [\<lparr>e_level = DPanicLevel, e_name = [], e_msg = danglingKeyErrMsg, e_context = [],
          e_fields = [Any ''ignored'' (VString ''d'')]\<rparr>])"
proof -
  let ?w = "snd (NewLogger start)"
  let ?lg = "\<lparr>base = \<lparr>core_level = Some 0, core_fields = [], zname = [], development = False\<rparr>,
           level = 0\<rparr>"
  let ?v = "snd (NewDevelopmentLogger start)"
  let ?dv = "\<lparr>base = \<lparr>core_level = Some 0, core_fields = [], zname = [], development = True\<rparr>,
           level = 0\<rparr>"
  let ?ss = "[PairShape (VString ''k'') (VInt 1)]"
  have ok: "list_all shape_ok ?ss" by simp
  have b: "is_bare (VString ''d'')" by simp
  have r: "scan_runs (base ?lg) InfoLevel ?w"
    by (simp add: scan_runs_def production_Enabled)
  have r': "scan_runs (base ?dv) InfoLevel ?v"
    by (simp add: scan_runs_def development_Enabled level_defs)
  have f: "flat ?ss @ [VString ''d''] = [VString ''k'', VInt 1, VString ''d'']"
    by (simp add: flat_def)
  from dangling_key_diagnostic [OF production_deref r ok b, of "''msg''"]
  have "logw (Some 0) InfoLevel ''msg'' (flat ?ss @ [VString ''d'']) ?w =
      (terminal (base ?lg) InfoLevel ''msg'',
       wrote ?w
         ((if zap_Enabled (base ?lg) DPanicLevel ?w
           then dangling_diagnostic (base ?lg) (VString ''d'') #
                (if shapes_invalids 0 ?ss = [] then []
                 else [invalid_diagnostic (base ?lg) (shapes_invalids 0 ?ss)])
           else []) @
          (if zap_Enabled (base ?lg) InfoLevel ?w
           then [record_of (base ?lg) InfoLevel ''msg'' (concat (map shape_fields ?ss))]
           else [])))"
    by simp
  then have p: "logw (Some 0) InfoLevel ''msg'' [VString ''k'', VInt 1, VString ''d''] ?w =
     (Ok (),
      wrote ?w
        [\<lparr>e_level = DPanicLevel, e_name = [], e_msg = danglingKeyErrMsg, e_context = [],
          e_fields = [Any ''ignored'' (VString ''d'')]\<rparr>,
         \<lparr>e_level = InfoLevel, e_name = [], e_msg = ''msg'', e_context = [],
          e_fields = [Any ''k'' (VInt 1)]\<rparr>])"
    by (simp add: f production_Enabled terminal_def dangling_diagnostic_def record_of_def
        level_defs)
  from dangling_key_diagnostic [OF development_deref r' ok b, of "''msg''"]
  have "logw (Some 0) InfoLevel ''msg'' (flat ?ss @ [VString ''d'']) ?v =
      (Panic danglingKeyErrMsg,
       wrote ?v (if zap_Enabled (base ?dv) DPanicLevel ?v
                 then [dangling_diagnostic (base ?dv) (VString ''d'')] else []))"
    by simp
  then have q: "logw (Some 0) InfoLevel ''msg'' [VString ''k'', VInt 1, VString ''d''] ?v =
     (Panic danglingKeyErrMsg,
      wrote ?v
        [\<lparr>e_level = DPanicLevel, e_name = [], e_msg = danglingKeyErrMsg, e_context = [],
          e_fields = [Any ''ignored'' (VString ''d'')]\<rparr>])"
    by (simp add: f development_Enabled dangling_diagnostic_def record_of_def level_defs)
  from p q show ?thesis by (rule conjI)
qed

text \<open>
  C4, as stated: whatever the Logger, the Fields read from the rest of the tail are not
  suppressed by the pairs with keys that are not strings.  On a development Logger the
  diagnostic for those pairs panics once it is written, and the record \<open>msg\<close> with
  \<open>k = 1\<close> is not written.
\<close>

theorem invalid_pairs_development:
  "(case NewDevelopmentLogger start of
      (l, w) \<Rightarrow>
        (case Infow l ''msg'' [VInt 42, VString ''v'', VString ''k'', VInt 1] w of
           (r, w') \<Rightarrow>
             r = Panic nonStringKeyErrMsg \<and>
             map e_msg (written w') = [nonStringKeyErrMsg]))"
  by code_simp

text \<open>
  C4, amended.  For every tail handed to \<open>logw\<close> that reads as shapes, with or without
  a dangling key, in a call for which the scan runs: the scan collects no Field for a pair
  whose key is not a string and goes on; the invalid pairs are as many as those pairs,
  each with the position, key and value it has in the tail, in increasing order of
  position.  On a Logger that is not in development mode the diagnostics (one for the
  dangling key if there is one, then exactly one for all the invalid pairs if there is at
  least one, carrying their list) are written if the core is enabled at DPanic, then the
  original record with the Fields of the shapes is written if the core is enabled at the
  call's level, and the call ends as its level does.  On a development Logger the call
  panics at its first diagnostic: with a dangling key, at the dangling-key diagnostic, and
  the one for the invalid pairs is not issued; with none and at least one invalid pair,
  at the diagnostic for the invalid pairs; that diagnostic is all the call may have
  written.
\<close>

theorem invalid_pairs_diagnostic:
  assumes "deref w l = Some lg" and "scan_runs (base lg) lvl w"
    and "list_all shape_ok ss" and "tail_ok d"
  shows "scan (flat ss @ tail_args d) 0 [] [] =
           (concat (map shape_fields ss), shapes_invalids 0 ss, d) \<and>
         length (shapes_invalids 0 ss) = length (filter bad_pair ss) \<and>
         (\<forall>p \<in> set (shapes_invalids 0 ss).
            Suc (position p) < length (flat ss) \<and>
            flat ss ! position p = pair_key p \<and> flat ss ! Suc (position p) = pair_value p \<and>
            \<not> is_string (pair_key p)) \<and>
         sorted_wrt (<) (map position (shapes_invalids 0 ss)) \<and>
         logw l lvl msg (flat ss @ tail_args d) w =
           (case d of
              Some k \<Rightarrow>
                if development (base lg)
                then (Panic danglingKeyErrMsg,
                      wrote w (if zap_Enabled (base lg) DPanicLevel w
                               then [dangling_diagnostic (base lg) k] else []))
                else (terminal (base lg) lvl msg,
                      wrote w
                        ((if zap_Enabled (base lg) DPanicLevel w
                          then diagnostics (base lg) (shapes_invalids 0 ss) (Some k) else []) @
                         (if zap_Enabled (base lg) lvl w
                          then [record_of (base lg) lvl msg (concat (map shape_fields ss))]
                          else [])))
            | None \<Rightarrow>
                if development (base lg) \<and> shapes_invalids 0 ss \<noteq> []
                then (Panic nonStringKeyErrMsg,
                      wrote w (if zap_Enabled (base lg) DPanicLevel w
                               then [invalid_diagnostic (base lg) (shapes_invalids 0 ss)]
                               else []))
                else (terminal (base lg) lvl msg,
                      wrote w
                        ((if zap_Enabled (base lg) DPanicLevel w
                          then diagnostics (base lg) (shapes_invalids 0 ss) None else []) @
                         (if zap_Enabled (base lg) lvl w
                          then [record_of (base lg) lvl msg (concat (map shape_fields ss))]
                          else []))))"
proof -
  have s: "scan (flat ss @ tail_args d) 0 [] [] =
           (concat (map shape_fields ss), shapes_invalids 0 ss, d)"
    by (rule scan_flat_tail [OF assms(3,4)])
  have p: "\<forall>p \<in> set (shapes_invalids 0 ss).
            Suc (position p) < length (flat ss) \<and>
            flat ss ! position p = pair_key p \<and> flat ss ! Suc (position p) = pair_value p \<and>
            \<not> is_string (pair_key p)"
    using shapes_invalids_positions [of _ 0 ss] by auto
  note r = logw_runs [OF assms(1,2) s, of msg]
  from s p r show ?thesis
    by (simp only: length_shapes_invalids shapes_invalids_sorted simp_thms)
qed

text \<open>C4, amended, at Info level with the tail \<open>42, "v"\<close>: on a production Logger, one
  diagnostic with the one invalid pair at position 0, then the record with no Field; on a
  development Logger, the diagnostic and a panic.\<close>

theorem invalid_pairs_diagnostic_witness:
  "logw (Some 0) InfoLevel ''msg'' [VInt 42, VString ''v''] (snd (NewLogger start)) =
     (Ok (),
      wrote (snd (NewLogger start))
        [\<lparr>e_level = DPanicLevel, e_name = [], e_msg = nonStringKeyErrMsg, e_context = [],
          e_fields = [Field ''invalid'' ArrayMarshalerType 0 []
                        (VInvalidPairs [InvalidPair 0 (VInt 42) (VString ''v'')])]\<rparr>,
         \<lparr>e_level = InfoLevel, e_name = [], e_msg = ''msg'', e_context = [],
          e_fields = []\<rparr>]) \<and>
   logw (Some 0) InfoLevel ''msg'' [VInt 42, VString ''v''] (snd (NewDevelopmentLogger start)) =
     (Panic nonStringKeyErrMsg,
      wrote (snd (NewDevelopmentLogger start))
        [\<lparr>e_level = DPanicLevel, e_name = [], e_msg = nonStringKeyErrMsg, e_context = [],
          e_fields = [Field ''invalid'' ArrayMarshalerType 0 []
                        (VInvalidPairs [InvalidPair 0 (VInt 42) (VString ''v'')])]\<rparr>]) \<and>
   shapes_invalids 0 [PairShape (VInt 42) (VString ''v'')] =
     [InvalidPair 0 (VInt 42) (VString ''v'')] \<and>
   flat [PairShape (VInt 42) (VString ''v'')] ! 0 = VInt 42 \<and>
   flat [PairShape (VInt 42) (VString ''v'')] ! Suc 0 = VString ''v''"
proof -
  let ?w = "snd (NewLogger start)"
  let ?lg = "\<lparr>base = \<lparr>core_level = Some 0, core_fields = [], zname = [], development = False\<rparr>,
           level = 0\<rparr>"
  let ?v = "snd (NewDevelopmentLogger start)"
  let ?dv = "\<lparr>base = \<lparr>core_level = Some 0, core_fields = [], zname = [], development = True\<rparr>,
           level = 0\<rparr>"
  let ?ss = "[PairShape (VInt 42) (VString ''v'')]"
  have ok: "list_all shape_ok ?ss" by simp
  have t: "tail_ok None" by (simp add: tail_ok_def)
  have r: "scan_runs (base ?lg) InfoLevel ?w"
    by (simp add: scan_runs_def production_Enabled)
  have r': "scan_runs (base ?dv) InfoLevel ?v"
    by (simp add: scan_runs_def development_Enabled level_defs)
  have f: "flat ?ss @ tail_args None = [VInt 42, VString ''v'']"
    by (simp add: flat_def tail_args_def)
  have i: "shapes_invalids 0 ?ss = [InvalidPair 0 (VInt 42) (VString ''v'')]"
    by simp
  note inst = invalid_pairs_diagnostic [OF production_deref r ok t, of "''msg''"]
  from inst
  have "logw (Some 0) InfoLevel ''msg'' (flat ?ss @ tail_args None) ?w =
      (terminal (base ?lg) InfoLevel ''msg'',
       wrote ?w
         ((if zap_Enabled (base ?lg) DPanicLevel ?w
           then diagnostics (base ?lg) (shapes_invalids 0 ?ss) None else []) @
          (if zap_Enabled (base ?lg) InfoLevel ?w
           then [record_of (base ?lg) InfoLevel ''msg'' (concat (map shape_fields ?ss))]
           else [])))"
    by simp
  then have a: "logw (Some 0) InfoLevel ''msg'' [VInt 42, VString ''v''] ?w =
     (Ok (),
      wrote ?w
        [\<lparr>e_level = DPanicLevel, e_name = [], e_msg = nonStringKeyErrMsg, e_context = [],
          e_fields = [Field ''invalid'' ArrayMarshalerType 0 []
                        (VInvalidPairs [InvalidPair 0 (VInt 42) (VString ''v'')])]\<rparr>,
         \<lparr>e_level = InfoLevel, e_name = [], e_msg = ''msg'', e_context = [],
          e_fields = []\<rparr>])"
    by (simp add: f production_Enabled terminal_def diagnostics_def invalid_diagnostic_def
        record_of_def level_defs)
  from invalid_pairs_diagnostic [OF development_deref r' ok t, of "''msg''"]
  have "logw (Some 0) InfoLevel ''msg'' (flat ?ss @ tail_args None) ?v =
      (Panic nonStringKeyErrMsg,
       wrote ?v (if zap_Enabled (base ?dv) DPanicLevel ?v
                 then [invalid_diagnostic (base ?dv) (shapes_invalids 0 ?ss)] else []))"
    by simp
  then have c: "logw (Some 0) InfoLevel ''msg'' [VInt 42, VString ''v''] ?v =
     (Panic nonStringKeyErrMsg,
      wrote ?v
        [\<lparr>e_level = DPanicLevel, e_name = [], e_msg = nonStringKeyErrMsg, e_context = [],
          e_fields = [Field ''invalid'' ArrayMarshalerType 0 []
                        (VInvalidPairs [InvalidPair 0 (VInt 42) (VString ''v'')])]\<rparr>])"
    by (simp add: f development_Enabled invalid_diagnostic_def record_of_def level_defs)
  from inst have "\<forall>p \<in> set (shapes_invalids 0 ?ss).
      flat ?ss ! position p = pair_key p \<and> flat ?ss ! Suc (position p) = pair_value p"
    by blast
  with i have b: "flat ?ss ! 0 = VInt 42 \<and> flat ?ss ! Suc 0 = VString ''v''"
    by simp
  from a c i b show ?thesis by blast
qed

section \<open>The level gate\<close>

text \<open>
  C6, as stated: DPanic, Panic and Fatal always emit, whatever the level.  With the level
  set to Fatal, \<open>Panicw\<close> panics and writes nothing.
\<close>

theorem panic_below_level_not_written:
  "(case NewLogger start of
      (l, w) \<Rightarrow>
        (case SetLevel l FatalLevel w of
           (r, w') \<Rightarrow> Panicw l ''msg'' [] w' = (Panic ''msg'', w') \<and> written w' = []))"
  by code_simp

text \<open>
  C6, amended.  For a Logger whose core is gated by its own level cell, \<open>SetLevel(X)\<close>
  stores \<open>X\<close> in that cell, and then a call of \<open>logw\<close> at a level does the following.
  Below \<open>X\<close> it writes nothing.  Below \<open>X\<close> and below DPanic it returns at once.  Only
  that early return is skipped from DPanic on: below \<open>X\<close>, a DPanic call on a Logger not
  in development mode, like a call at a level above Fatal, still does nothing, while a
  Panic call, a Fatal call and a DPanic call in development run the scan, write nothing,
  and end in their panic or exit.  At or above \<open>X\<close> the call writes the diagnostics of
  its tail (if \<open>X\<close> is at most DPanic) and then its record, and ends as its level does.
  In both cases where the scan runs, on a development Logger a tail with a dangling key
  or an invalid pair makes the call panic at its first diagnostic instead, with at most
  that diagnostic written.  The methods with the suffix \<open>w\<close> other than \<open>DPanicw\<close>,
  and the methods that take a context, dispatch at the severity of their name.
\<close>

theorem level_gating:
  assumes "deref w l = Some lg" and "core_level (base lg) = Some (level lg)"
    and "level lg < length (levels w)"
  shows "SetLevel l X w = (Ok (), w\<lparr>levels := (levels w)[level lg := X]\<rparr>) \<and>
         (lvl < X \<longrightarrow>
            written (snd (logw l lvl msg kv (snd (SetLevel l X w)))) = written w) \<and>
         (lvl < X \<and> lvl < DPanicLevel \<longrightarrow>
            logw l lvl msg kv (snd (SetLevel l X w)) = (Ok (), snd (SetLevel l X w))) \<and>
         logw l lvl msg kv (snd (SetLevel l X w)) =
           (if lvl < X \<and> lvl \<noteq> PanicLevel \<and> lvl \<noteq> FatalLevel \<and>
               \<not> (lvl = DPanicLevel \<and> development (base lg))
            then (Ok (), snd (SetLevel l X w))
            else
              (case scan kv 0 [] [] of
                 (fs, ivs, d) \<Rightarrow>
                   (case d of
                      Some k \<Rightarrow>
                        if development (base lg)
                        then (Panic danglingKeyErrMsg,
                              wrote (snd (SetLevel l X w))
                                (if X \<le> DPanicLevel then [dangling_diagnostic (base lg) k]
                                 else []))
                        else (terminal (base lg) lvl msg,
                              wrote (snd (SetLevel l X w))
                                ((if X \<le> DPanicLevel
                                  then diagnostics (base lg) ivs (Some k) else []) @
                                 (if X \<le> lvl then [record_of (base lg) lvl msg fs] else [])))
                    | None \<Rightarrow>
                        if development (base lg) \<and> ivs \<noteq> []
                        then (Panic nonStringKeyErrMsg,
                              wrote (snd (SetLevel l X w))
                                (if X \<le> DPanicLevel then [invalid_diagnostic (base lg) ivs]
                                 else []))
                        else (terminal (base lg) lvl msg,
                              wrote (snd (SetLevel l X w))
                                ((if X \<le> DPanicLevel
                                  then diagnostics (base lg) ivs None else []) @
                                 (if X \<le> lvl then [record_of (base lg) lvl msg fs]
                                  else [])))))) \<and>
         (X \<le> lvl \<and> (\<not> development (base lg) \<or> snd (scan kv 0 [] []) = ([], None)) \<longrightarrow>
            written (snd (logw l lvl msg kv (snd (SetLevel l X w)))) =
              written w @
              (if X \<le> DPanicLevel
               then diagnostics (base lg) (fst (snd (scan kv 0 [] []))) (snd (snd (scan kv 0 [] [])))
               else []) @
              [record_of (base lg) lvl msg (fst (scan kv 0 [] []))]) \<and>
         Debugw l msg kv w = logw l DebugLevel msg kv w \<and>
         Infow l msg kv w = logw l InfoLevel msg kv w \<and>
         Warnw l msg kv w = logw l WarnLevel msg kv w \<and>
         Errorw l msg kv w = logw l ErrorLevel msg kv w \<and>
         Panicw l msg kv w = logw l PanicLevel msg kv w \<and>
         Fatalw l msg kv w = logw l FatalLevel msg kv w \<and>
         Debug l ctx msg kv w = logw l DebugLevel msg (kv @ [VField (TraceId ctx)]) w \<and>
         Info l ctx msg kv w = logw l InfoLevel msg (kv @ [VField (TraceId ctx)]) w \<and>
         Warn l ctx msg kv w = logw l WarnLevel msg (kv @ [VField (TraceId ctx)]) w \<and>
         Error' l ctx msg kv w = logw l ErrorLevel msg (kv @ [VField (TraceId ctx)]) w \<and>
         DPanic l ctx msg kv w = logw l DPanicLevel msg (kv @ [VField (TraceId ctx)]) w \<and>
         Panic' l ctx msg kv w = logw l PanicLevel msg (kv @ [VField (TraceId ctx)]) w \<and>
         Fatal l ctx msg kv w = logw l FatalLevel msg (kv @ [VField (TraceId ctx)]) w"
proof -
  let ?w = "snd (SetLevel l X w)"
  obtain fs ivs d where s: "scan kv 0 [] [] = (fs, ivs, d)"
    by (cases "scan kv 0 [] []") auto
  note d = SetLevel_facts(1) [OF assms(1), of X]
  note wr = SetLevel_facts(2) [OF assms(1), of X]
  note en = SetLevel_Enabled [OF assms, of _ X]
  have runs: "scan_runs (base lg) lvl ?w =
      (\<not> (lvl < X \<and> lvl \<noteq> PanicLevel \<and> lvl \<noteq> FatalLevel \<and>
          \<not> (lvl = DPanicLevel \<and> development (base lg))))"
    by (auto simp add: scan_runs_def en)
  have below: "lvl < X \<longrightarrow> written (snd (logw l lvl msg kv ?w)) = written w"
    using logw_below_gate [OF d, of lvl msg kv] en [of lvl] wr by auto
  have early: "lvl < X \<and> lvl < DPanicLevel \<longrightarrow> logw l lvl msg kv ?w = (Ok (), ?w)"
  proof
    assume a: "lvl < X \<and> lvl < DPanicLevel"
    then have "\<not> scan_runs (base lg) lvl ?w"
      by (auto simp add: scan_runs_def en level_defs)
    from logw_not_run [OF d this] show "logw l lvl msg kv ?w = (Ok (), ?w)" .
  qed
  have full: "logw l lvl msg kv ?w =
           (if lvl < X \<and> lvl \<noteq> PanicLevel \<and> lvl \<noteq> FatalLevel \<and>
               \<not> (lvl = DPanicLevel \<and> development (base lg))
            then (Ok (), ?w)
            else
              (case d of
                 Some k \<Rightarrow>
                   if development (base lg)
                   then (Panic danglingKeyErrMsg,
                         wrote ?w (if X \<le> DPanicLevel then [dangling_diagnostic (base lg) k]
                            else []))
                   else (terminal (base lg) lvl msg,
                         wrote ?w
                           ((if X \<le> DPanicLevel
                             then diagnostics (base lg) ivs (Some k) else []) @
                            (if X \<le> lvl then [record_of (base lg) lvl msg fs] else [])))
               | None \<Rightarrow>
                   if development (base lg) \<and> ivs \<noteq> []
                   then (Panic nonStringKeyErrMsg,
                         wrote ?w (if X \<le> DPanicLevel then [invalid_diagnostic (base lg) ivs]
                            else []))
                   else (terminal (base lg) lvl msg,
                         wrote ?w
                           ((if X \<le> DPanicLevel
                             then diagnostics (base lg) ivs None else []) @
                            (if X \<le> lvl then [record_of (base lg) lvl msg fs] else [])))))"
  proof (cases "scan_runs (base lg) lvl ?w")
    case False
    from logw_not_run [OF d False, of msg kv] False show ?thesis
      by (simp only: runs simp_thms if_True)
  next
    case True
    then have c: "(lvl < X \<and> lvl \<noteq> PanicLevel \<and> lvl \<noteq> FatalLevel \<and>
          \<not> (lvl = DPanicLevel \<and> development (base lg))) = False"
      by (simp only: runs simp_thms)
    from logw_runs [OF d True s, of msg] show ?thesis
      by (simp only: c if_False en)
  qed
  have above: "written (snd (logw l lvl msg kv ?w)) =
      written w @ (if X \<le> DPanicLevel then diagnostics (base lg) ivs d else []) @
      [record_of (base lg) lvl msg fs]"
    if "X \<le> lvl" and "\<not> development (base lg) \<or> (ivs = [] \<and> d = None)"
  proof (cases "development (base lg)")
    case False
    from that(1) have e: "zap_Enabled (base lg) lvl ?w" by (simp add: en)
    from logw_production [OF d False e s, of msg] show ?thesis
      by (simp add: en wr)
  next
    case True
    with that(2) have wf: "ivs = []" "d = None" by simp_all
    from that(1) have e: "zap_Enabled (base lg) lvl ?w" by (simp add: en)
    from s wf have s': "scan kv 0 [] [] = (fs, [], None)" by simp
    from logw_well_formed [OF d e s', of msg] wf show ?thesis
      by (simp add: wr diagnostics_def)
  qed
  have sl: "SetLevel l X w = (Ok (), w\<lparr>levels := (levels w)[level lg := X]\<rparr>)"
    by (rule SetLevel_eq [OF assms(1)])
  have full': "logw l lvl msg kv ?w =
           (if lvl < X \<and> lvl \<noteq> PanicLevel \<and> lvl \<noteq> FatalLevel \<and>
               \<not> (lvl = DPanicLevel \<and> development (base lg))
            then (Ok (), ?w)
            else
              (case scan kv 0 [] [] of
                 (fs, ivs, d) \<Rightarrow>
                   (case d of
                      Some k \<Rightarrow>
                        if development (base lg)
                        then (Panic danglingKeyErrMsg,
                              wrote ?w
                                (if X \<le> DPanicLevel then [dangling_diagnostic (base lg) k]
                                 else []))
                        else (terminal (base lg) lvl msg,
                              wrote ?w
                                ((if X \<le> DPanicLevel
                                  then diagnostics (base lg) ivs (Some k) else []) @
                                 (if X \<le> lvl then [record_of (base lg) lvl msg fs] else [])))
                    | None \<Rightarrow>
                        if development (base lg) \<and> ivs \<noteq> []
                        then (Panic nonStringKeyErrMsg,
                              wrote ?w
                                (if X \<le> DPanicLevel then [invalid_diagnostic (base lg) ivs]
                                 else []))
                        else (terminal (base lg) lvl msg,
                              wrote ?w
                                ((if X \<le> DPanicLevel
                                  then diagnostics (base lg) ivs None else []) @
                                 (if X \<le> lvl then [record_of (base lg) lvl msg fs]
                                  else []))))))"
    using full by (simp only: s prod.case)
  have ab: "X \<le> lvl \<and> (\<not> development (base lg) \<or> snd (scan kv 0 [] []) = ([], None)) \<longrightarrow>
            written (snd (logw l lvl msg kv ?w)) =
              written w @
              (if X \<le> DPanicLevel
               then diagnostics (base lg) (fst (snd (scan kv 0 [] []))) (snd (snd (scan kv 0 [] [])))
               else []) @
              [record_of (base lg) lvl msg (fst (scan kv 0 [] []))]"
    using above s by simp
  have wraps: "Debugw l msg kv w = logw l DebugLevel msg kv w \<and>
         Infow l msg kv w = logw l InfoLevel msg kv w \<and>
         Warnw l msg kv w = logw l WarnLevel msg kv w \<and>
         Errorw l msg kv w = logw l ErrorLevel msg kv w \<and>
         Panicw l msg kv w = logw l PanicLevel msg kv w \<and>
         Fatalw l msg kv w = logw l FatalLevel msg kv w \<and>
         Debug l ctx msg kv w = logw l DebugLevel msg (kv @ [VField (TraceId ctx)]) w \<and>
         Info l ctx msg kv w = logw l InfoLevel msg (kv @ [VField (TraceId ctx)]) w \<and>
         Warn l ctx msg kv w = logw l WarnLevel msg (kv @ [VField (TraceId ctx)]) w \<and>
         Error' l ctx msg kv w = logw l ErrorLevel msg (kv @ [VField (TraceId ctx)]) w \<and>
         DPanic l ctx msg kv w = logw l DPanicLevel msg (kv @ [VField (TraceId ctx)]) w \<and>
         Panic' l ctx msg kv w = logw l PanicLevel msg (kv @ [VField (TraceId ctx)]) w \<and>
         Fatal l ctx msg kv w = logw l FatalLevel msg (kv @ [VField (TraceId ctx)]) w"
    by (simp add: Debugw_def Infow_def Warnw_def Errorw_def Panicw_def Fatalw_def
        Debug_def Info_def Warn_def Error'_def DPanic_def Panic'_def Fatal_def)
  show ?thesis
    apply (rule conjI, rule sl)
    apply (rule conjI, rule below)
    apply (rule conjI, rule early)
    apply (rule conjI, rule full')
    apply (rule conjI, rule ab)
    apply (rule wraps)
    done
qed

text \<open>C6, amended, on a production Logger: after \<open>SetLevel(Warn)\<close> an Info call returns
  at once and an Error call writes its record; after \<open>SetLevel(Fatal)\<close> a Panic call
  panics and writes nothing.\<close>

theorem level_gating_witness:
  "logw (Some 0) InfoLevel ''msg'' []
      (snd (SetLevel (Some 0) WarnLevel (snd (NewLogger start)))) =
     (Ok (), snd (SetLevel (Some 0) WarnLevel (snd (NewLogger start)))) \<and>
   logw (Some 0) ErrorLevel ''msg'' []
      (snd (SetLevel (Some 0) WarnLevel (snd (NewLogger start)))) =
     (Ok (),
      wrote (snd (SetLevel (Some 0) WarnLevel (snd (NewLogger start))))
        [\<lparr>e_level = ErrorLevel, e_name = [], e_msg = ''msg'', e_context = [],
          e_fields = []\<rparr>]) \<and>
   logw (Some 0) PanicLevel ''msg'' []
      (snd (SetLevel (Some 0) FatalLevel (snd (NewLogger start)))) =
     (Panic ''msg'', snd (SetLevel (Some 0) FatalLevel (snd (NewLogger start)))) \<and>
   written (snd (SetLevel (Some 0) FatalLevel (snd (NewLogger start)))) = []"
proof -
  let ?w = "snd (NewLogger start)"
  let ?lg = "\<lparr>base = \<lparr>core_level = Some 0, core_fields = [], zname = [], development = False\<rparr>,
           level = 0\<rparr>"
  have c: "core_level (base ?lg) = Some (level ?lg)" by simp
  have n: "level ?lg < length (levels ?w)" by (simp add: production_levels)
  note t = level_gating [OF production_deref c n]
  have lt: "InfoLevel < WarnLevel \<and> InfoLevel < DPanicLevel"
    by (simp add: level_defs)
  from t [of WarnLevel InfoLevel "''msg''" "[]"] lt
  have a: "logw (Some 0) InfoLevel ''msg'' [] (snd (SetLevel (Some 0) WarnLevel ?w)) =
      (Ok (), snd (SetLevel (Some 0) WarnLevel ?w))"
    by blast
  have s: "scan [] 0 [] [] = ([], [], None)" by (rule scan_Nil)
  note fe = t [of WarnLevel ErrorLevel "''msg''" "[]",
      THEN conjunct2, THEN conjunct2, THEN conjunct2, THEN conjunct1]
  from fe
  have b: "logw (Some 0) ErrorLevel ''msg'' [] (snd (SetLevel (Some 0) WarnLevel ?w)) =
     (Ok (),
      wrote (snd (SetLevel (Some 0) WarnLevel ?w))
        [\<lparr>e_level = ErrorLevel, e_name = [], e_msg = ''msg'', e_context = [],
          e_fields = []\<rparr>])"
    by (simp add: s terminal_def diagnostics_def record_of_def level_defs)
  note fp = t [of FatalLevel PanicLevel "''msg''" "[]",
      THEN conjunct2, THEN conjunct2, THEN conjunct2, THEN conjunct1]
  from fp
  have d: "logw (Some 0) PanicLevel ''msg'' [] (snd (SetLevel (Some 0) FatalLevel ?w)) =
     (Panic ''msg'', snd (SetLevel (Some 0) FatalLevel ?w))"
    by (simp add: s terminal_def level_defs)
  have e: "written (snd (SetLevel (Some 0) FatalLevel ?w)) = []"
    by (simp add: SetLevel_facts(2) [OF production_deref] production_written)
  from a b d e show ?thesis by blast
qed

end
